theory Spec2Isabelle
  imports Main
begin

section \<open>The data model of vk_suggester.py\<close>

text \<open>
  \<^verbatim>\<open>class PostStatus(Enum)\<close>: the closed set of outcomes of one submission; \<open>status_value\<close>
  is the enum member's \<^verbatim>\<open>.value\<close>.
\<close>

datatype PostStatus =
    SUCCESS
  | WALL_DISABLED
  | SUGGEST_DISABLED
  | ACCESS_DENIED
  | NOT_MEMBER
  | RATE_LIMIT
  | AUTH_ERROR
  | CAPTCHA
  | GROUP_NOT_FOUND
  | NETWORK_ERROR
  | UNKNOWN_ERROR

fun status_value :: "PostStatus \<Rightarrow> string" where
  "status_value SUCCESS = ''success''"
| "status_value WALL_DISABLED = ''wall_disabled''"
| "status_value SUGGEST_DISABLED = ''suggest_disabled''"
| "status_value ACCESS_DENIED = ''access_denied''"
| "status_value NOT_MEMBER = ''not_member''"
| "status_value RATE_LIMIT = ''rate_limit''"
| "status_value AUTH_ERROR = ''auth_error''"
| "status_value CAPTCHA = ''captcha''"
| "status_value GROUP_NOT_FOUND = ''group_not_found''"
| "status_value NETWORK_ERROR = ''network_error''"
| "status_value UNKNOWN_ERROR = ''unknown_error''"

text \<open>
  \<^verbatim>\<open>@dataclass class GroupInfo\<close>. Both dataclasses of the source have a field
  \<^verbatim>\<open>group_id\<close>; the one of \<open>GroupInfo\<close> is written \<open>GroupInfo.group_id\<close> below.
\<close>

record GroupInfo =
  group_id :: int
  name :: string
  screen_name :: string
  can_post :: bool
  can_suggest :: bool
  is_closed :: int
  is_member :: bool

text \<open>\<^verbatim>\<open>@dataclass class PostResult\<close>: the three optional fields default to \<^verbatim>\<open>None\<close>.\<close>

record PostResult =
  group_id :: int
  group_name :: string
  status :: PostStatus
  post_id :: "int option"
  error_message :: "string option"
  error_code :: "int option"

text \<open>
  Exceptions are values. \<open>VKApiError\<close> is the class of the source and
  \<open>RequestException\<close> the one of the \<^verbatim>\<open>requests\<close> library; the others are the Python
  built-in exceptions the code runs into on a reply of an unexpected shape.
  \<open>SchemaError\<close> is not a Python exception: it marks the point where a reply carries a
  value of another type than the annotations of the source declare (\<^verbatim>\<open>Dict[str, int]\<close>,
  \<^verbatim>\<open>code: int\<close>, \<^verbatim>\<open>name: str\<close>, ...), or an array or object where a string is formatted.
  There the typed model stops following the run; no theorem below speaks about such a run.
\<close>

datatype exn =
    VKApiError int string
  | RequestException string
  | AttributeError
  | KeyError
  | IndexError
  | TypeError
  | SchemaError

subsection \<open>Python dictionaries, in insertion order\<close>

text \<open>
  A \<^verbatim>\<open>dict\<close> keeps its keys in insertion order, and an assignment to a key that is
  present keeps the key's position: an association list with distinct keys.
\<close>

fun dict_set :: "('k \<times> 'v) list \<Rightarrow> 'k \<Rightarrow> 'v \<Rightarrow> ('k \<times> 'v) list" where
  "dict_set [] k v = [(k, v)]"
| "dict_set ((k', v') # d) k v = (if k' = k then (k, v) # d else (k', v') # dict_set d k v)"

definition dict_keys :: "('k \<times> 'v) list \<Rightarrow> 'k list" where
  "dict_keys d = map fst d"

definition dict_values :: "('k \<times> 'v) list \<Rightarrow> 'v list" where
  "dict_values d = map snd d"

text \<open>\<^verbatim>\<open>d[k]\<close> raises \<^verbatim>\<open>KeyError\<close> on a missing key; \<^verbatim>\<open>d.get(k)\<close> is \<open>map_of d k\<close>.\<close>

definition dict_getitem :: "('k \<times> 'v) list \<Rightarrow> 'k \<Rightarrow> exn + 'v" where
  "dict_getitem d k = (case map_of d k of None \<Rightarrow> Inl KeyError | Some v \<Rightarrow> Inr v)"

subsection \<open>Strings and the Python library\<close>

text \<open>
  Strings are byte strings in UTF-8. What \<^verbatim>\<open>str.strip\<close>, \<^verbatim>\<open>str.lower\<close>, \<^verbatim>\<open>int\<close> and
  \<^verbatim>\<open>re.sub\<close> do depends on the Unicode tables and on the version of the interpreter
  (which characters are whitespace, letters or decimal digits, how many digits \<^verbatim>\<open>int\<close>
  accepts). The model does not fix them: a value of \<open>python\<close> holds the four library
  functions the resolver calls, the resolver takes it as a parameter, and every theorem
  about the resolver holds for every such value.
  \<^item> \<open>py_strip py s\<close> is \<^verbatim>\<open>s.strip()\<close>;
  \<^item> \<open>py_lower py s\<close> is \<^verbatim>\<open>s.lower()\<close>;
  \<^item> \<open>py_int py s\<close> is \<^verbatim>\<open>int(s)\<close>, with \<open>None\<close> for the \<^verbatim>\<open>ValueError\<close> the source catches;
  \<^item> \<open>py_sub py pattern s\<close> is \<^verbatim>\<open>re.sub(pattern, "", s, flags=re.IGNORECASE)\<close>.
\<close>

record python =
  py_strip :: "string \<Rightarrow> string"
  py_lower :: "string \<Rightarrow> string"
  py_int :: "string \<Rightarrow> int option"
  py_sub :: "string \<Rightarrow> string \<Rightarrow> string"

text \<open>\<^verbatim>\<open>sep.join(xs)\<close>\<close>

fun str_join :: "string \<Rightarrow> string list \<Rightarrow> string" where
  "str_join sep [] = []"
| "str_join sep [x] = x"
| "str_join sep (x # y # ys) = x @ sep @ str_join sep (y # ys)"

function str_nat :: "nat \<Rightarrow> string" where
  "str_nat n =
     (if n < 10 then [''0123456789'' ! n]
      else str_nat (n div 10) @ [''0123456789'' ! (n mod 10)])"
  by pat_completeness auto
termination
  by (relation "measure id") auto

declare str_nat.simps [simp del]

text \<open>\<^verbatim>\<open>str(i)\<close> of an integer.\<close>

definition str_int :: "int \<Rightarrow> string" where
  "str_int i = (if i < 0 then CHR ''-'' # str_nat (nat (- i)) else str_nat (nat i))"

text \<open>
  The regular expressions of \<^verbatim>\<open>_clean_group_identifier\<close>, as the source writes them
  (\<open>backslash\<close> is the character that escapes the dots).
\<close>

definition backslash :: string where
  "backslash = [CHR 0x5C]"

definition patterns :: "string list" where
  "patterns =
    [''https?://vk'' @ backslash @ ''.com/'',
     ''https?://m'' @ backslash @ ''.vk'' @ backslash @ ''.com/'',
     ''vk'' @ backslash @ ''.com/'',
     ''^@'',
     ''^public'',
     ''^club'']"

text \<open>\<^verbatim>\<open>_clean_group_identifier\<close>: the patterns in sequence, then \<^verbatim>\<open>strip\<close>.\<close>

definition clean_group_identifier :: "python \<Rightarrow> string \<Rightarrow> string" where
  "clean_group_identifier py identifier =
     py_strip py (foldl (\<lambda>s pattern. py_sub py pattern s) identifier patterns)"

subsection \<open>The library on ASCII strings\<close>

text \<open>
  \<open>ascii_python\<close> is what the four functions do on ASCII strings: \<^verbatim>\<open>strip\<close> removes the
  ASCII whitespace of Python, \<^verbatim>\<open>lower\<close> folds \<open>A\<close>..\<open>Z\<close>, \<^verbatim>\<open>int\<close> reads an optional sign and
  decimal digits that single underscores may group, and refuses more than 4300 digits as
  CPython does by default. It serves to run the scenarios, whose strings are ASCII; no
  theorem about all inputs depends on it.
\<close>

definition is_space :: "char \<Rightarrow> bool" where
  "is_space c = (c \<in> set [CHR 0x09, CHR 0x0A, CHR 0x0B, CHR 0x0C, CHR 0x0D,
                           CHR 0x1C, CHR 0x1D, CHR 0x1E, CHR 0x1F, CHR 0x20])"

definition ascii_strip :: "string \<Rightarrow> string" where
  "ascii_strip s = rev (dropWhile is_space (rev (dropWhile is_space s)))"

definition lower_char :: "char \<Rightarrow> char" where
  "lower_char c =
     (case map_of (zip ''ABCDEFGHIJKLMNOPQRSTUVWXYZ'' ''abcdefghijklmnopqrstuvwxyz'') c of
        None \<Rightarrow> c | Some l \<Rightarrow> l)"

definition ascii_lower :: "string \<Rightarrow> string" where
  "ascii_lower s = map lower_char s"

definition is_digit :: "char \<Rightarrow> bool" where
  "is_digit c = (c \<in> set ''0123456789'')"

definition digit_val :: "char \<Rightarrow> nat" where
  "digit_val c = (case map_of (zip ''0123456789'' [0, 1, 2, 3, 4, 5, 6, 7, 8, 9]) c of
                    None \<Rightarrow> 0 | Some d \<Rightarrow> d)"

fun parse_digits :: "nat \<Rightarrow> string \<Rightarrow> nat option" where
  "parse_digits acc [] = Some acc"
| "parse_digits acc [c] = (if is_digit c then Some (10 * acc + digit_val c) else None)"
| "parse_digits acc (c # d # ds) =
     (if is_digit c then parse_digits (10 * acc + digit_val c) (d # ds)
      else if c = CHR ''_'' \<and> is_digit d then parse_digits (10 * acc + digit_val d) ds
      else None)"

definition parse_unsigned :: "string \<Rightarrow> nat option" where
  "parse_unsigned s =
     (case s of [] \<Rightarrow> None
      | c # cs \<Rightarrow> if is_digit c then parse_digits (digit_val c) cs else None)"

definition ascii_int :: "string \<Rightarrow> int option" where
  "ascii_int s =
     (if length (filter is_digit s) > 4300 then None
      else case ascii_strip s of
        [] \<Rightarrow> None
      | c # cs \<Rightarrow>
          if c = CHR ''-'' then map_option (\<lambda>n. - int n) (parse_unsigned cs)
          else if c = CHR ''+'' then map_option int (parse_unsigned cs)
          else map_option int (parse_unsigned (c # cs)))"

text \<open>
  \<open>match_ci p s\<close>: the literal \<open>p\<close> matches at the start of \<open>s\<close>, ignoring case; the
  result is the rest of \<open>s\<close> after the match.
\<close>

fun match_ci :: "string \<Rightarrow> string \<Rightarrow> string option" where
  "match_ci [] s = Some s"
| "match_ci (p # ps) [] = None"
| "match_ci (p # ps) (c # cs) = (if lower_char p = lower_char c then match_ci ps cs else None)"

fun match_any :: "string list \<Rightarrow> string \<Rightarrow> string option" where
  "match_any [] s = None"
| "match_any (p # ps) s = (case match_ci p s of Some r \<Rightarrow> Some r | None \<Rightarrow> match_any ps s)"

text \<open>
  A pattern without anchor, given by the literals it matches (\<^verbatim>\<open>https?://vk\.com/\<close> matches
  \<open>https://vk.com/\<close> and \<open>http://vk.com/\<close>): scan from the left, drop a match and go on
  behind it. The fuel is the length of the text: each step consumes a character.
\<close>

fun sub_all_fuel :: "nat \<Rightarrow> string list \<Rightarrow> string \<Rightarrow> string" where
  "sub_all_fuel 0 ps s = s"
| "sub_all_fuel (Suc n) ps [] = []"
| "sub_all_fuel (Suc n) ps (c # cs) =
     (case match_any (filter (\<lambda>p. p \<noteq> []) ps) (c # cs) of
        Some r \<Rightarrow> sub_all_fuel n ps r
      | None \<Rightarrow> c # sub_all_fuel n ps cs)"

definition sub_all :: "string list \<Rightarrow> string \<Rightarrow> string" where
  "sub_all ps s = sub_all_fuel (length s) ps s"

text \<open>A pattern with the anchor \<open>^\<close> matches at the start only.\<close>

definition sub_start :: "string \<Rightarrow> string \<Rightarrow> string" where
  "sub_start p s = (case match_ci p s of Some r \<Rightarrow> r | None \<Rightarrow> s)"

text \<open>The six patterns of the source; the model knows no other one.\<close>

definition ascii_sub :: "string \<Rightarrow> string \<Rightarrow> string" where
  "ascii_sub pattern s =
     (if pattern = ''https?://vk'' @ backslash @ ''.com/''
      then sub_all [''https://vk.com/'', ''http://vk.com/''] s
      else if pattern = ''https?://m'' @ backslash @ ''.vk'' @ backslash @ ''.com/''
      then sub_all [''https://m.vk.com/'', ''http://m.vk.com/''] s
      else if pattern = ''vk'' @ backslash @ ''.com/'' then sub_all [''vk.com/''] s
      else if pattern = ''^@'' then sub_start ''@'' s
      else if pattern = ''^public'' then sub_start ''public'' s
      else if pattern = ''^club'' then sub_start ''club'' s
      else s)"

definition ascii_python :: python where
  "ascii_python =
     \<lparr>py_strip = ascii_strip, py_lower = ascii_lower, py_int = ascii_int, py_sub = ascii_sub\<rparr>"

subsection \<open>Decoded JSON\<close>

text \<open>
  What \<^verbatim>\<open>response.json()\<close> returns: \<^verbatim>\<open>None\<close>, a bool, an int, a str, a list or a dict
  with string keys (looked up with \<open>map_of\<close>). Floats do not occur in the provider's
  replies and are left out.
\<close>

datatype json =
    JNull
  | JBool bool
  | JInt int
  | JStr string
  | JArr "json list"
  | JObj "(string \<times> json) list"

text \<open>Truth value of an object in \<^verbatim>\<open>if x:\<close>.\<close>

fun truthy :: "json \<Rightarrow> bool" where
  "truthy JNull = False"
| "truthy (JBool b) = b"
| "truthy (JInt i) = (i \<noteq> 0)"
| "truthy (JStr s) = (s \<noteq> [])"
| "truthy (JArr xs) = (xs \<noteq> [])"
| "truthy (JObj kv) = (kv \<noteq> [])"

text \<open>\<^verbatim>\<open>x.get(key, default)\<close>: only a dict has the method.\<close>

fun py_get :: "json \<Rightarrow> string \<Rightarrow> json \<Rightarrow> exn + json" where
  "py_get (JObj kv) key dflt = Inr (case map_of kv key of None \<Rightarrow> dflt | Some v \<Rightarrow> v)"
| "py_get x key dflt = Inl AttributeError"

text \<open>\<^verbatim>\<open>x[key]\<close> with a string key.\<close>

fun py_getitem :: "json \<Rightarrow> string \<Rightarrow> exn + json" where
  "py_getitem (JObj kv) key = (case map_of kv key of None \<Rightarrow> Inl KeyError | Some v \<Rightarrow> Inr v)"
| "py_getitem x key = Inl TypeError"



fun is_substring :: "string \<Rightarrow> string \<Rightarrow> bool" where
  "is_substring p [] = (p = [])"
| "is_substring p (c # cs) = (take (length p) (c # cs) = p \<or> is_substring p cs)"

text \<open>\<^verbatim>\<open>key in x\<close> for a string key.\<close>

fun py_contains :: "string \<Rightarrow> json \<Rightarrow> exn + bool" where
  "py_contains key (JObj kv) = Inr (key \<in> set (map fst kv))"
| "py_contains key (JArr xs) = Inr (JStr key \<in> set xs)"
| "py_contains key (JStr s) = Inr (is_substring key s)"
| "py_contains key x = Inl TypeError"

text \<open>\<^verbatim>\<open>x == i\<close> for an int \<open>i\<close>: \<^verbatim>\<open>True == 1\<close> and \<^verbatim>\<open>False == 0\<close> hold in Python.\<close>

fun py_eq_int :: "json \<Rightarrow> int \<Rightarrow> bool" where
  "py_eq_int (JInt j) i = (j = i)"
| "py_eq_int (JBool b) i = ((if b then 1 else 0) = i)"
| "py_eq_int x i = False"

text \<open>\<^verbatim>\<open>str(x)\<close> and \<^verbatim>\<open>f"{x}"\<close> of a scalar.\<close>

fun py_str :: "json \<Rightarrow> exn + string" where
  "py_str JNull = Inr ''None''"
| "py_str (JBool b) = Inr (if b then ''True'' else ''False'')"
| "py_str (JInt i) = Inr (str_int i)"
| "py_str (JStr s) = Inr s"
| "py_str x = Inl SchemaError"

text \<open>A value where the source's annotations declare an \<^verbatim>\<open>int\<close> or a \<^verbatim>\<open>str\<close>.\<close>

fun as_int :: "json \<Rightarrow> exn + int" where
  "as_int (JInt i) = Inr i"
| "as_int x = Inl SchemaError"

fun as_str :: "json \<Rightarrow> exn + string" where
  "as_str (JStr s) = Inr s"
| "as_str x = Inl SchemaError"

section \<open>The client and the network\<close>

text \<open>
  \<^verbatim>\<open>self._session.post(url, data=..., timeout=30)\<close> and
  \<^verbatim>\<open>self._session.post(url, files={"photo": (filename, photo_data)}, timeout=60)\<close>.
\<close>

type_synonym params = "(string \<times> json) list"

datatype http_request =
    PostData string params nat
  | PostFiles string "(string \<times> string \<times> string) list" nat

text \<open>
  What a post gives back after \<^verbatim>\<open>raise_for_status()\<close> and \<^verbatim>\<open>json()\<close>: a
  \<^verbatim>\<open>requests.RequestException\<close> (a transport failure, an HTTP error status, a body that
  is not JSON) with its text, or the decoded body.
\<close>

datatype http_reply = Raises string | Json json

text \<open>
  The world outside the client: the reply to the \<open>n\<close>-th request of the client, and the
  values of \<^verbatim>\<open>uuid.uuid4()\<close>. Every theorem below holds for every world.
\<close>

record world =
  http :: "nat \<Rightarrow> http_request \<Rightarrow> http_reply"
  uuid4 :: "nat \<Rightarrow> string"

text \<open>
  The texts the source logs, one constructor for each format string, with its arguments.
\<close>

datatype message =
    MsgRateLimit nat
  | MsgNetworkRetry string
  | MsgResolveError "string list" exn
  | MsgGroupsInfoError exn
  | MsgNoUploadUrl
  | MsgUploadRejected
  | MsgUploadError exn
  | MsgResolving nat
  | MsgNoneResolved
  | MsgFound nat
  | MsgFetchingInfo
  | MsgSuggestClosed nat nat string
  | MsgSending nat nat string
  | MsgSent nat nat string "int option"
  | MsgNotSent nat nat string string
  | MsgAuthError

text \<open>
  What the client does, in order: the calls of \<^verbatim>\<open>_log\<close> (text and level), of
  \<^verbatim>\<open>_wait_rate_limit\<close>, of \<^verbatim>\<open>time.sleep\<close> in the retry policy (seconds), of
  \<^verbatim>\<open>_session.post\<close>, and of the \<^verbatim>\<open>on_progress\<close> callback. The two callbacks,
  \<^verbatim>\<open>on_log\<close> and \<^verbatim>\<open>on_progress\<close>, are the caller's: a call is recorded and taken to return.
\<close>

datatype event =
    Log message string
  | RateLimitWait
  | Sleep nat
  | Http http_request
  | Progress nat nat PostResult

text \<open>
  The state of a \<^verbatim>\<open>VKSuggester\<close>: the token, the request counter and the events so far.
  The clock (\<^verbatim>\<open>_last_request_time\<close>, \<^verbatim>\<open>request_delay\<close>) is real time and is not modelled:
  \<open>RateLimitWait\<close> stands for the call that may sleep.
\<close>

record client =
  access_token :: string
  request_count :: nat
  events :: "event list"

definition API_VERSION :: string where
  "API_VERSION = ''5.131''"

definition BASE_URL :: string where
  "BASE_URL = ''https://api.vk.com/method''"

definition ERROR_AUTH :: int where
  "ERROR_AUTH = 5"

definition ERROR_TOO_MANY_REQUESTS_1 :: int where
  "ERROR_TOO_MANY_REQUESTS_1 = 6"

definition ERROR_FLOOD :: int where
  "ERROR_FLOOD = 9"

definition ERROR_CAPTCHA :: int where
  "ERROR_CAPTCHA = 14"

definition ERROR_ACCESS_DENIED :: int where
  "ERROR_ACCESS_DENIED = 15"

definition ERROR_TOO_MANY_REQUESTS_2 :: int where
  "ERROR_TOO_MANY_REQUESTS_2 = 29"

definition ERROR_WALL_ACCESS_DENIED :: int where
  "ERROR_WALL_ACCESS_DENIED = 30"

definition ERROR_WALL_DISABLED :: int where
  "ERROR_WALL_DISABLED = 214"

definition ERROR_GROUP_ACCESS_DENIED :: int where
  "ERROR_GROUP_ACCESS_DENIED = 203"

definition vk_log :: "message \<Rightarrow> string \<Rightarrow> client \<Rightarrow> client" where
  "vk_log msg level st = st\<lparr>events := events st @ [Log msg level]\<rparr>"

definition time_sleep :: "nat \<Rightarrow> client \<Rightarrow> client" where
  "time_sleep seconds st = st\<lparr>events := events st @ [Sleep seconds]\<rparr>"

text \<open>\<^verbatim>\<open>_wait_rate_limit\<close>: called once before every post; it counts the requests.\<close>

definition wait_rate_limit :: "client \<Rightarrow> client" where
  "wait_rate_limit st =
     st\<lparr>request_count := request_count st + 1, events := events st @ [RateLimitWait]\<rparr>"

definition session_post :: "world \<Rightarrow> http_request \<Rightarrow> client \<Rightarrow> http_reply \<times> client" where
  "session_post w req st = (http w (request_count st) req, st\<lparr>events := events st @ [Http req]\<rparr>)"

subsection \<open>The retry policy: \<^verbatim>\<open>_api_request\<close>\<close>

text \<open>The Russian texts that travel as data, in UTF-8.\<close>

definition network_error_text :: string where
  "network_error_text =
     [CHR 0xD0, CHR 0xA1, CHR 0xD0, CHR 0xB5, CHR 0xD1, CHR 0x82, CHR 0xD0, CHR 0xB5,
      CHR 0xD0, CHR 0xB2, CHR 0xD0, CHR 0xB0, CHR 0xD1, CHR 0x8F, CHR 0x20, CHR 0xD0,
      CHR 0xBE, CHR 0xD1, CHR 0x88, CHR 0xD0, CHR 0xB8, CHR 0xD0, CHR 0xB1, CHR 0xD0,
      CHR 0xBA, CHR 0xD0, CHR 0xB0, CHR 0x3A, CHR 0x20]"

definition attempts_exceeded_text :: string where
  "attempts_exceeded_text =
     [CHR 0xD0, CHR 0x9F, CHR 0xD1, CHR 0x80, CHR 0xD0, CHR 0xB5, CHR 0xD0, CHR 0xB2,
      CHR 0xD1, CHR 0x8B, CHR 0xD1, CHR 0x88, CHR 0xD0, CHR 0xB5, CHR 0xD0, CHR 0xBD,
      CHR 0xD0, CHR 0xBE, CHR 0x20, CHR 0xD0, CHR 0xBA, CHR 0xD0, CHR 0xBE, CHR 0xD0,
      CHR 0xBB, CHR 0xD0, CHR 0xB8, CHR 0xD1, CHR 0x87, CHR 0xD0, CHR 0xB5, CHR 0xD1,
      CHR 0x81, CHR 0xD1, CHR 0x82, CHR 0xD0, CHR 0xB2, CHR 0xD0, CHR 0xBE, CHR 0x20,
      CHR 0xD0, CHR 0xBF, CHR 0xD0, CHR 0xBE, CHR 0xD0, CHR 0xBF, CHR 0xD1, CHR 0x8B,
      CHR 0xD1, CHR 0x82, CHR 0xD0, CHR 0xBE, CHR 0xD0, CHR 0xBA]"

definition group_label :: string where
  "group_label =
     [CHR 0xD0, CHR 0x93, CHR 0xD1, CHR 0x80, CHR 0xD1, CHR 0x83, CHR 0xD0, CHR 0xBF,
      CHR 0xD0, CHR 0xBF, CHR 0xD0, CHR 0xB0, CHR 0x20]"

definition suggest_closed_text :: string where
  "suggest_closed_text =
     [CHR 0xD0, CHR 0x9F, CHR 0xD1, CHR 0x80, CHR 0xD0, CHR 0xB5, CHR 0xD0, CHR 0xB4,
      CHR 0xD0, CHR 0xBB, CHR 0xD0, CHR 0xBE, CHR 0xD0, CHR 0xB6, CHR 0xD0, CHR 0xBA,
      CHR 0xD0, CHR 0xB0, CHR 0x2F, CHR 0xD1, CHR 0x81, CHR 0xD1, CHR 0x82, CHR 0xD0,
      CHR 0xB5, CHR 0xD0, CHR 0xBD, CHR 0xD0, CHR 0xB0, CHR 0x20, CHR 0xD0, CHR 0xB7,
      CHR 0xD0, CHR 0xB0, CHR 0xD0, CHR 0xBA, CHR 0xD1, CHR 0x80, CHR 0xD1, CHR 0x8B,
      CHR 0xD1, CHR 0x82, CHR 0xD0, CHR 0xB0]"

definition no_post_id_text :: string where
  "no_post_id_text =
     [CHR 0xD0, CHR 0x9D, CHR 0xD0, CHR 0xB5, CHR 0x20, CHR 0xD0, CHR 0xBF, CHR 0xD0,
      CHR 0xBE, CHR 0xD0, CHR 0xBB, CHR 0xD1, CHR 0x83, CHR 0xD1, CHR 0x87, CHR 0xD0,
      CHR 0xB5, CHR 0xD0, CHR 0xBD, CHR 0x20, CHR 0x70, CHR 0x6F, CHR 0x73, CHR 0x74,
      CHR 0x5F, CHR 0x69, CHR 0x64]"

text \<open>
  \<^verbatim>\<open>raise VKApiError(error_code, error_msg)\<close> with the two values read from the reply.
\<close>

definition api_error :: "json \<Rightarrow> json \<Rightarrow> exn" where
  "api_error code msg =
     (case code of
        JInt c \<Rightarrow> (case msg of JStr m \<Rightarrow> VKApiError c m | _ \<Rightarrow> SchemaError)
      | _ \<Rightarrow> SchemaError)"

text \<open>What one pass through the body of the \<^verbatim>\<open>for attempt in range(retry_count)\<close> loop does.\<close>

datatype 'a step = Continue | Return 'a | Raise exn

text \<open>The part of the loop body after \<^verbatim>\<open>data = response.json()\<close>.\<close>

definition handle_data :: "nat \<Rightarrow> nat \<Rightarrow> json \<Rightarrow> client \<Rightarrow> json step \<times> client" where
  "handle_data retry_count attempt data st =
     (case py_contains ''error'' data of
        Inl e \<Rightarrow> (Raise e, st)
      | Inr True \<Rightarrow>
          (case py_getitem data ''error'' of
             Inl e \<Rightarrow> (Raise e, st)
           | Inr error \<Rightarrow>
               (case py_get error ''error_code'' (JInt 0) of
                  Inl e \<Rightarrow> (Raise e, st)
                | Inr code \<Rightarrow>
                    (case py_get error ''error_msg'' (JStr ''Unknown error'') of
                       Inl e \<Rightarrow> (Raise e, st)
                     | Inr msg \<Rightarrow>
                         if code \<in> set [JInt ERROR_TOO_MANY_REQUESTS_1,
                                         JInt ERROR_TOO_MANY_REQUESTS_2,
                                         JInt ERROR_FLOOD]
                            \<and> int attempt < int retry_count - 1
                         then (let wait_time = (attempt + 1) * 2
                               in (Continue,
                                   time_sleep wait_time
                                     (vk_log (MsgRateLimit wait_time) ''warning'' st)))
                         else (Raise (api_error code msg), st))))
      | Inr False \<Rightarrow>
          (case py_get data ''response'' (JObj []) of
             Inl e \<Rightarrow> (Raise e, st)
           | Inr r \<Rightarrow> (Return r, st)))"

definition api_attempt ::
  "world \<Rightarrow> string \<Rightarrow> params \<Rightarrow> nat \<Rightarrow> nat \<Rightarrow> client \<Rightarrow> json step \<times> client" where
  "api_attempt w method ps retry_count attempt st =
     (case session_post w (PostData (BASE_URL @ ''/'' @ method) ps 30) (wait_rate_limit st) of
        (Raises e, st') \<Rightarrow>
          if int attempt < int retry_count - 1
          then (Continue, time_sleep 2 (vk_log (MsgNetworkRetry e) ''warning'' st'))
          else (Raise (VKApiError (- 1) (network_error_text @ e)), st')
      | (Json data, st') \<Rightarrow> handle_data retry_count attempt data st')"

fun api_loop ::
  "world \<Rightarrow> string \<Rightarrow> params \<Rightarrow> nat \<Rightarrow> nat list \<Rightarrow> client \<Rightarrow> (exn + json) \<times> client" where
  "api_loop w method ps retry_count [] st = (Inl (VKApiError (- 1) attempts_exceeded_text), st)"
| "api_loop w method ps retry_count (attempt # rest) st =
     (case api_attempt w method ps retry_count attempt st of
        (Continue, st') \<Rightarrow> api_loop w method ps retry_count rest st'
      | (Return r, st') \<Rightarrow> (Inr r, st')
      | (Raise e, st') \<Rightarrow> (Inl e, st'))"

text \<open>
  \<^verbatim>\<open>_api_request(method, params, retry_count)\<close>; \<open>api_params\<close> is
  \<^verbatim>\<open>{**params, "access_token": self.access_token, "v": self.API_VERSION}\<close>.
\<close>

definition api_params :: "client \<Rightarrow> params \<Rightarrow> params" where
  "api_params st ps =
     dict_set (dict_set ps ''access_token'' (JStr (access_token st))) ''v'' (JStr API_VERSION)"

definition api_request_n ::
  "world \<Rightarrow> string \<Rightarrow> params \<Rightarrow> nat \<Rightarrow> client \<Rightarrow> (exn + json) \<times> client" where
  "api_request_n w method ps retry_count st =
     api_loop w method (api_params st ps) retry_count [0..<retry_count] st"

text \<open>Every caller in the source leaves \<^verbatim>\<open>retry_count\<close> at its default, 3.\<close>

definition api_request :: "world \<Rightarrow> string \<Rightarrow> params \<Rightarrow> client \<Rightarrow> (exn + json) \<times> client" where
  "api_request w method ps st = api_request_n w method ps 3 st"

section \<open>Resolving identifiers\<close>

text \<open>
  The first loop of \<^verbatim>\<open>resolve_group_ids\<close>: a cleaned identifier that \<^verbatim>\<open>int\<close> accepts goes
  into \<open>result\<close> with its absolute value, any other one is kept for the lookup.
\<close>

fun split_identifiers ::
  "python \<Rightarrow> string list \<Rightarrow> (string \<times> int) list \<Rightarrow> string list
   \<Rightarrow> (string \<times> int) list \<times> string list" where
  "split_identifiers py [] result to_resolve = (result, to_resolve)"
| "split_identifiers py (identifier # rest) result to_resolve =
     (if py_strip py identifier = [] then split_identifiers py rest result to_resolve
      else (let cleaned = clean_group_identifier py (py_strip py identifier)
            in case py_int py cleaned of
                 Some gid \<Rightarrow>
                   split_identifiers py rest (dict_set result cleaned (abs gid)) to_resolve
               | None \<Rightarrow> split_identifiers py rest result (to_resolve @ [cleaned])))"

text \<open>
  \<^verbatim>\<open>for i in range(0, len(xs), n): batch = xs[i:i+n]\<close>, the batches in order.
\<close>

function batches :: "nat \<Rightarrow> 'a list \<Rightarrow> 'a list list" where
  "batches n xs = (if n = 0 \<or> xs = [] then [] else take n xs # batches n (drop n xs))"
  by pat_completeness auto
termination
  by (relation "measure (\<lambda>(n, xs). length xs)") auto

declare batches.simps [simp del]

text \<open>
  \<^verbatim>\<open>for orig in batch\<close> for one group of the reply: the first identifier that equals the
  group's handle (ignoring case) or its id gets the id, and the loop breaks.
\<close>

definition store_id :: "json \<Rightarrow> string \<Rightarrow> (string \<times> int) list \<Rightarrow> exn + (string \<times> int) list" where
  "store_id grp orig result =
     (case py_getitem grp ''id'' of
        Inl e \<Rightarrow> Inl e
      | Inr gid \<Rightarrow> (case as_int gid of Inl e \<Rightarrow> Inl e | Inr g \<Rightarrow> Inr (dict_set result orig g)))"

fun match_batch ::
  "python \<Rightarrow> json \<Rightarrow> json \<Rightarrow> string list \<Rightarrow> (string \<times> int) list \<Rightarrow> exn + (string \<times> int) list" where
  "match_batch py grp sname [] result = Inr result"
| "match_batch py grp sname (orig # rest) result =
     (case sname of
        JStr s \<Rightarrow>
          if py_lower py orig = py_lower py s then store_id grp orig result
          else (case py_getitem grp ''id'' of
                  Inl e \<Rightarrow> Inl e
                | Inr gid \<Rightarrow>
                    (case py_str gid of
                       Inl e \<Rightarrow> Inl e
                     | Inr t \<Rightarrow>
                         if t = orig then store_id grp orig result
                         else match_batch py grp sname rest result))
      | _ \<Rightarrow> Inl AttributeError)"

fun resolve_groups ::
  "python \<Rightarrow> json list \<Rightarrow> string list \<Rightarrow> (string \<times> int) list \<Rightarrow> exn + (string \<times> int) list" where
  "resolve_groups py [] batch result = Inr result"
| "resolve_groups py (grp # groups) batch result =
     (case py_get grp ''screen_name'' (JStr []) of
        Inl e \<Rightarrow> Inl e
      | Inr sname \<Rightarrow>
          (case match_batch py grp sname batch result of
             Inl e \<Rightarrow> Inl e
           | Inr result' \<Rightarrow> resolve_groups py groups batch result'))"

text \<open>
  \<^verbatim>\<open>groups = response.get("groups", response) if isinstance(response, dict) else response\<close>
\<close>

definition groups_of :: "json \<Rightarrow> json" where
  "groups_of response =
     (case response of
        JObj kv \<Rightarrow> (case map_of kv ''groups'' of None \<Rightarrow> response | Some g \<Rightarrow> g)
      | _ \<Rightarrow> response)"

text \<open>
  The second loop of \<^verbatim>\<open>resolve_group_ids\<close>: one lookup for each batch; a \<open>VKApiError\<close> is
  logged and the batch is dropped, any other exception leaves the function.
\<close>

fun resolve_batches ::
  "python \<Rightarrow> world \<Rightarrow> string list list \<Rightarrow> (string \<times> int) list \<Rightarrow> client
   \<Rightarrow> (exn + (string \<times> int) list) \<times> client" where
  "resolve_batches py w [] result st = (Inr result, st)"
| "resolve_batches py w (batch # rest) result st =
     (case api_request w ''groups.getById'' [(''group_ids'', JStr (str_join '','' batch))] st of
        (Inl (VKApiError c m), st') \<Rightarrow>
          resolve_batches py w rest result
            (vk_log (MsgResolveError batch (VKApiError c m)) ''warning'' st')
      | (Inl e, st') \<Rightarrow> (Inl e, st')
      | (Inr response, st') \<Rightarrow>
          (case groups_of response of
             JArr groups \<Rightarrow>
               (case resolve_groups py groups batch result of
                  Inl e \<Rightarrow> (Inl e, st')
                | Inr result' \<Rightarrow> resolve_batches py w rest result' st')
           | _ \<Rightarrow> resolve_batches py w rest result st'))"

definition resolve_group_ids ::
  "python \<Rightarrow> world \<Rightarrow> string list \<Rightarrow> client \<Rightarrow> (exn + (string \<times> int) list) \<times> client" where
  "resolve_group_ids py w group_identifiers st =
     (case split_identifiers py group_identifiers [] [] of
        (result, to_resolve) \<Rightarrow> resolve_batches py w (batches 25 to_resolve) result st)"

section \<open>Fetching the communities' metadata\<close>

text \<open>The \<open>GroupInfo\<close> built from one group of the reply.\<close>

definition group_info_of :: "json \<Rightarrow> exn + GroupInfo" where
  "group_info_of grp =
     (case py_getitem grp ''id'' of
        Inl e \<Rightarrow> Inl e
      | Inr gid_json \<Rightarrow>
     (case as_int gid_json of
        Inl e \<Rightarrow> Inl e
      | Inr gid \<Rightarrow>
     (case py_get grp ''name'' (JStr (group_label @ str_int gid)) of
        Inl e \<Rightarrow> Inl e
      | Inr name_json \<Rightarrow>
     (case as_str name_json of
        Inl e \<Rightarrow> Inl e
      | Inr nm \<Rightarrow>
     (case py_get grp ''screen_name'' (JStr (str_int gid)) of
        Inl e \<Rightarrow> Inl e
      | Inr sname_json \<Rightarrow>
     (case as_str sname_json of
        Inl e \<Rightarrow> Inl e
      | Inr sn \<Rightarrow>
     (case py_get grp ''can_post'' (JInt 0) of
        Inl e \<Rightarrow> Inl e
      | Inr cp \<Rightarrow>
     (case py_get grp ''can_suggest'' (JInt 0) of
        Inl e \<Rightarrow> Inl e
      | Inr cs \<Rightarrow>
     (case py_get grp ''is_closed'' (JInt 0) of
        Inl e \<Rightarrow> Inl e
      | Inr closed_json \<Rightarrow>
     (case as_int closed_json of
        Inl e \<Rightarrow> Inl e
      | Inr closed \<Rightarrow>
     (case py_get grp ''is_member'' (JInt 0) of
        Inl e \<Rightarrow> Inl e
      | Inr mem \<Rightarrow>
          Inr \<lparr>GroupInfo.group_id = gid, name = nm, screen_name = sn,
               can_post = py_eq_int cp 1, can_suggest = py_eq_int cs 1,
               is_closed = closed, is_member = py_eq_int mem 1\<rparr>)))))))))))"

fun store_groups :: "json list \<Rightarrow> (int \<times> GroupInfo) list \<Rightarrow> exn + (int \<times> GroupInfo) list" where
  "store_groups [] result = Inr result"
| "store_groups (grp # groups) result =
     (case group_info_of grp of
        Inl e \<Rightarrow> Inl e
      | Inr info \<Rightarrow> store_groups groups (dict_set result (GroupInfo.group_id info) info))"

text \<open>
  The stub of the \<^verbatim>\<open>except VKApiError\<close> branch: the defaults of the dataclass for the
  four fields the source does not pass.
\<close>

definition placeholder :: "int \<Rightarrow> GroupInfo" where
  "placeholder gid =
     \<lparr>GroupInfo.group_id = gid, name = group_label @ str_int gid, screen_name = str_int gid,
      can_post = False, can_suggest = False, is_closed = 0, is_member = False\<rparr>"

fun placeholders :: "int list \<Rightarrow> (int \<times> GroupInfo) list \<Rightarrow> (int \<times> GroupInfo) list" where
  "placeholders [] result = result"
| "placeholders (gid # batch) result =
     placeholders batch
       (if gid \<notin> set (dict_keys result) then dict_set result gid (placeholder gid) else result)"

fun info_batches ::
  "world \<Rightarrow> int list list \<Rightarrow> (int \<times> GroupInfo) list \<Rightarrow> client
   \<Rightarrow> (exn + (int \<times> GroupInfo) list) \<times> client" where
  "info_batches w [] result st = (Inr result, st)"
| "info_batches w (batch # rest) result st =
     (case api_request w ''groups.getById''
             [(''group_ids'', JStr (str_join '','' (map str_int batch))),
              (''fields'', JStr ''can_post,can_suggest,is_closed,is_member,wall'')] st of
        (Inl (VKApiError c m), st') \<Rightarrow>
          info_batches w rest (placeholders batch result)
            (vk_log (MsgGroupsInfoError (VKApiError c m)) ''warning'' st')
      | (Inl e, st') \<Rightarrow> (Inl e, st')
      | (Inr response, st') \<Rightarrow>
          (case groups_of response of
             JArr groups \<Rightarrow>
               (case store_groups groups result of
                  Inl e \<Rightarrow> (Inl e, st')
                | Inr result' \<Rightarrow> info_batches w rest result' st')
           | _ \<Rightarrow> info_batches w rest result st'))"

definition get_groups_info ::
  "world \<Rightarrow> int list \<Rightarrow> client \<Rightarrow> (exn + (int \<times> GroupInfo) list) \<times> client" where
  "get_groups_info w group_ids st = info_batches w (batches 500 group_ids) [] st"

section \<open>Uploading a photo\<close>






section \<open>Submitting a post\<close>

text \<open>
  \<^verbatim>\<open>_classify_error\<close>: the dict literal of the source, in its order, and
  \<^verbatim>\<open>mapping.get(error_code, PostStatus.UNKNOWN_ERROR)\<close>.
\<close>

definition mapping :: "(int \<times> PostStatus) list" where
  "mapping =
    [(ERROR_AUTH, AUTH_ERROR),
     (ERROR_TOO_MANY_REQUESTS_1, RATE_LIMIT),
     (ERROR_FLOOD, RATE_LIMIT),
     (ERROR_CAPTCHA, CAPTCHA),
     (ERROR_ACCESS_DENIED, ACCESS_DENIED),
     (ERROR_TOO_MANY_REQUESTS_2, RATE_LIMIT),
     (ERROR_WALL_ACCESS_DENIED, ACCESS_DENIED),
     (ERROR_WALL_DISABLED, WALL_DISABLED),
     (ERROR_GROUP_ACCESS_DENIED, GROUP_NOT_FOUND)]"

definition classify_error :: "int \<Rightarrow> PostStatus" where
  "classify_error code =
     (case map_of mapping code of None \<Rightarrow> UNKNOWN_ERROR | Some s \<Rightarrow> s)"

text \<open>The parameters of \<^verbatim>\<open>wall.post\<close>; \<^verbatim>\<open>attachments\<close> is added when it is a non-empty string.\<close>

definition post_params :: "int \<Rightarrow> string \<Rightarrow> string option \<Rightarrow> string \<Rightarrow> params" where
  "post_params gid message attachments guid =
     (let ps = [(''owner_id'', JInt (- gid)), (''message'', JStr message),
                (''from_group'', JInt 0), (''guid'', JStr guid)]
      in case attachments of
           None \<Rightarrow> ps
         | Some a \<Rightarrow> if a \<noteq> [] then dict_set ps ''attachments'' (JStr a) else ps)"

definition post_to_suggestion ::
  "world \<Rightarrow> int \<Rightarrow> string \<Rightarrow> string \<Rightarrow> string option \<Rightarrow> client \<Rightarrow> (exn + PostResult) \<times> client" where
  "post_to_suggestion w gid gname message attachments st =
     (case api_request w ''wall.post''
             (post_params gid message attachments (uuid4 w (request_count st))) st of
        (Inl (VKApiError c m), st') \<Rightarrow>
          (Inr \<lparr>group_id = gid, group_name = gname, status = classify_error c,
                post_id = None, error_message = Some m, error_code = Some c\<rparr>, st')
      | (Inl e, st') \<Rightarrow> (Inl e, st')
      | (Inr response, st') \<Rightarrow>
          (case py_get response ''post_id'' JNull of
             Inl e \<Rightarrow> (Inl e, st')
           | Inr pid \<Rightarrow>
               if truthy pid
               then (case as_int pid of
                       Inl e \<Rightarrow> (Inl e, st')
                     | Inr p \<Rightarrow>
                         (Inr \<lparr>group_id = gid, group_name = gname, status = SUCCESS,
                               post_id = Some p, error_message = None, error_code = None\<rparr>, st'))
               else (Inr \<lparr>group_id = gid, group_name = gname, status = UNKNOWN_ERROR,
                          post_id = None, error_message = Some no_post_id_text,
                          error_code = None\<rparr>, st')))"

section \<open>The batch: \<^verbatim>\<open>process_groups\<close>\<close>

text \<open>
  \<^verbatim>\<open>if info and not info.can_suggest and not info.can_post\<close>: a \<open>GroupInfo\<close> is always
  truthy, so the test is on the two flags of a record that was found.
\<close>

definition suggest_closed :: "GroupInfo option \<Rightarrow> bool" where
  "suggest_closed info =
     (case info of None \<Rightarrow> False | Some i \<Rightarrow> \<not> can_suggest i \<and> \<not> can_post i)"

text \<open>\<^verbatim>\<open>msg = result.error_message or result.status.value\<close>\<close>

definition failure_text :: "PostResult \<Rightarrow> string" where
  "failure_text result =
     (case error_message result of
        None \<Rightarrow> status_value (status result)
      | Some m \<Rightarrow> if m \<noteq> [] then m else status_value (status result))"

text \<open>\<^verbatim>\<open>if on_progress: on_progress(i + 1, total, result)\<close>\<close>

definition report_progress :: "bool \<Rightarrow> nat \<Rightarrow> nat \<Rightarrow> PostResult \<Rightarrow> client \<Rightarrow> client" where
  "report_progress on_progress current n result st =
     (if on_progress then st\<lparr>events := events st @ [Progress current n result]\<rparr> else st)"

text \<open>
  The loop \<^verbatim>\<open>for i, (identifier, gid) in enumerate(resolved.items())\<close>: \<open>i\<close> is the index
  of the first target left, \<open>results\<close> the list built so far.
\<close>

fun dispatch ::
  "world \<Rightarrow> (int \<times> GroupInfo) list \<Rightarrow> string \<Rightarrow> string option \<Rightarrow> bool \<Rightarrow> bool \<Rightarrow> nat \<Rightarrow> nat
   \<Rightarrow> (string \<times> int) list \<Rightarrow> PostResult list \<Rightarrow> client \<Rightarrow> (exn + PostResult list) \<times> client" where
  "dispatch w groups_info message attachments on_progress stop_on_auth_error n i [] results st =
     (Inr results, st)"
| "dispatch w groups_info message attachments on_progress stop_on_auth_error n i
     ((identifier, gid) # rest) results st =
     (let info = map_of groups_info gid;
          gname = (case info of None \<Rightarrow> group_label @ str_int gid | Some x \<Rightarrow> name x)
      in if suggest_closed info
         then (let result = \<lparr>group_id = gid, group_name = gname, status = SUGGEST_DISABLED,
                              post_id = None, error_message = Some suggest_closed_text,
                              error_code = None\<rparr>;
                   st1 = vk_log (MsgSuggestClosed (i + 1) n gname) ''warning'' st
               in dispatch w groups_info message attachments on_progress stop_on_auth_error n
                    (i + 1) rest (results @ [result])
                    (report_progress on_progress (i + 1) n result st1))
         else (case post_to_suggestion w gid gname message attachments
                      (vk_log (MsgSending (i + 1) n gname) ''info'' st) of
                 (Inl e, st') \<Rightarrow> (Inl e, st')
               | (Inr result, st') \<Rightarrow>
                   (let st2 = (if status result = SUCCESS
                               then vk_log (MsgSent (i + 1) n gname (post_id result)) ''info'' st'
                               else vk_log (MsgNotSent (i + 1) n gname (failure_text result))
                                      ''warning'' st')
                    in if stop_on_auth_error \<and> status result = AUTH_ERROR
                       then (Inr (results @ [result]), vk_log MsgAuthError ''error'' st2)
                       else dispatch w groups_info message attachments on_progress
                              stop_on_auth_error n (i + 1) rest (results @ [result])
                              (report_progress on_progress (i + 1) n result st2))))"

definition process_groups ::
  "python \<Rightarrow> world \<Rightarrow> string list \<Rightarrow> string \<Rightarrow> string option \<Rightarrow> bool \<Rightarrow> bool \<Rightarrow> client
   \<Rightarrow> (exn + PostResult list) \<times> client" where
  "process_groups py w group_identifiers message attachments on_progress stop_on_auth_error st =
     (case resolve_group_ids py w group_identifiers
             (vk_log (MsgResolving (length group_identifiers)) ''info'' st) of
        (Inl e, st1) \<Rightarrow> (Inl e, st1)
      | (Inr resolved, st1) \<Rightarrow>
          if resolved = [] then (Inr [], vk_log MsgNoneResolved ''error'' st1)
          else (case get_groups_info w (dict_values resolved)
                       (vk_log MsgFetchingInfo ''info''
                          (vk_log (MsgFound (length resolved)) ''info'' st1)) of
                  (Inl e, st2) \<Rightarrow> (Inl e, st2)
                | (Inr groups_info, st2) \<Rightarrow>
                    dispatch w groups_info message attachments on_progress stop_on_auth_error
                      (length (dict_values resolved)) 0 resolved [] st2))"

section \<open>The summary of a result list\<close>

text \<open>
  \<^verbatim>\<open>get_results_summary\<close> returns a dict with the four keys \<^verbatim>\<open>total\<close>, \<^verbatim>\<open>success\<close>,
  \<^verbatim>\<open>failed\<close> and \<^verbatim>\<open>by_status\<close>: a record here. The loop body reads
  \<^verbatim>\<open>summary["by_status"][status_name]\<close> after making sure the key is there; the read is
  kept as a lookup that can raise.
\<close>

record summary =
  total :: nat
  success :: nat
  failed :: nat
  by_status :: "(string \<times> nat) list"

definition summary_step :: "PostResult \<Rightarrow> summary \<Rightarrow> exn + summary" where
  "summary_step result s =
     (let status_name = status_value (status result);
          s1 = (if status_name \<notin> set (dict_keys (by_status s))
                then s\<lparr>by_status := dict_set (by_status s) status_name 0\<rparr> else s)
      in case dict_getitem (by_status s1) status_name of
           Inl e \<Rightarrow> Inl e
         | Inr n \<Rightarrow>
             (let s2 = s1\<lparr>by_status := dict_set (by_status s1) status_name (n + 1)\<rparr>
              in if status result = SUCCESS
                 then Inr (s2\<lparr>success := success s2 + 1\<rparr>)
                 else Inr (s2\<lparr>failed := failed s2 + 1\<rparr>)))"

fun summary_loop :: "PostResult list \<Rightarrow> summary \<Rightarrow> exn + summary" where
  "summary_loop [] s = Inr s"
| "summary_loop (result # results) s =
     (case summary_step result s of
        Inl e \<Rightarrow> Inl e
      | Inr s' \<Rightarrow> summary_loop results s')"

definition get_results_summary :: "PostResult list \<Rightarrow> exn + summary" where
  "get_results_summary results =
     summary_loop results \<lparr>total = length results, success = 0, failed = 0, by_status = []\<rparr>"

section \<open>Observing a run\<close>

text \<open>The requests and the sleeps of the retry policy among the events of a run, in order.\<close>

fun requests_of :: "event list \<Rightarrow> http_request list" where
  "requests_of [] = []"
| "requests_of (Http r # evs) = r # requests_of evs"
| "requests_of (e # evs) = requests_of evs"

fun sleeps_of :: "event list \<Rightarrow> nat list" where
  "sleeps_of [] = []"
| "sleeps_of (Sleep n # evs) = n # sleeps_of evs"
| "sleeps_of (e # evs) = sleeps_of evs"

text \<open>
  \<open>run st st' reqs\<close>: the client went from \<open>st\<close> to \<open>st'\<close> posting exactly the requests
  \<open>reqs\<close>, each of them counted, and kept its token.
\<close>

definition run :: "client \<Rightarrow> client \<Rightarrow> http_request list \<Rightarrow> bool" where
  "run st st' reqs =
     (access_token st' = access_token st
      \<and> request_count st' = request_count st + length reqs
      \<and> requests_of (events st') = requests_of (events st) @ reqs)"

text \<open>The request \<^verbatim>\<open>_api_request\<close> posts for a method, and the one of \<^verbatim>\<open>wall.post\<close> for a community.\<close>

definition api_post :: "client \<Rightarrow> string \<Rightarrow> params \<Rightarrow> http_request" where
  "api_post st method ps = PostData (BASE_URL @ ''/'' @ method) (api_params st ps) 30"

fun is_wall_post :: "int \<Rightarrow> http_request \<Rightarrow> bool" where
  "is_wall_post gid (PostData url ps t) =
     (url = BASE_URL @ ''/wall.post'' \<and> map_of ps ''owner_id'' = Some (JInt (- gid)))"
| "is_wall_post gid (PostFiles url fs t) = False"

section \<open>Scenarios\<close>

text \<open>
  A fresh client, and worlds for the scenarios the theorems are tried on: the body the
  provider sends for an error, and providers that always throttle, always deny, or cannot
  be reached at all.
\<close>

definition demo_client :: client where
  "demo_client = \<lparr>access_token = ''token'', request_count = 0, events = []\<rparr>"

definition error_body :: "int \<Rightarrow> string \<Rightarrow> json" where
  "error_body c m = JObj [(''error'', JObj [(''error_code'', JInt c), (''error_msg'', JStr m)])]"

definition world_throttled :: world where
  "world_throttled =
     \<lparr>http = (\<lambda>n req. Json (error_body 6 ''Too many requests per second'')),
      uuid4 = (\<lambda>n. ''guid'')\<rparr>"

definition world_denied :: world where
  "world_denied =
     \<lparr>http = (\<lambda>n req. Json (error_body 15 ''Access denied'')),
      uuid4 = (\<lambda>n. ''guid'')\<rparr>"

definition world_down :: world where
  "world_down = \<lparr>http = (\<lambda>n req. Raises ''timed out''), uuid4 = (\<lambda>n. ''guid'')\<rparr>"

text \<open>
  A provider whose first reply lists two communities, the first with both permissions
  off and the second open to suggestions, and that accepts every post with id 42.
\<close>

definition world_mixed :: world where
  "world_mixed =
     \<lparr>http = (\<lambda>n req.
         if n = 1
         then Json (JObj [(''response'', JObj [(''groups'', JArr
                 [JObj [(''id'', JInt 1), (''name'', JStr ''Closed''),
                        (''can_post'', JInt 0), (''can_suggest'', JInt 0)],
                  JObj [(''id'', JInt 2), (''name'', JStr ''Open''),
                        (''can_suggest'', JInt 1)]])])])
         else Json (JObj [(''response'', JObj [(''post_id'', JInt 42)])])),
      uuid4 = (\<lambda>n. ''guid'')\<rparr>"

text \<open>
  A provider that lists three communities open to suggestions, accepts one post with
  id 42 and answers every later request with the auth-failure code: the token was
  revoked during the batch.
\<close>

definition world_revoked :: world where
  "world_revoked =
     \<lparr>http = (\<lambda>n req.
         if n = 1
         then Json (JObj [(''response'', JObj [(''groups'', JArr
                 [JObj [(''id'', JInt 1), (''can_suggest'', JInt 1)],
                  JObj [(''id'', JInt 2), (''can_suggest'', JInt 1)],
                  JObj [(''id'', JInt 3), (''can_suggest'', JInt 1)]])])])
         else if n = 2 then Json (JObj [(''response'', JObj [(''post_id'', JInt 42)])])
         else Json (error_body 5 ''User authorization failed'')),
      uuid4 = (\<lambda>n. ''guid'')\<rparr>"


section \<open>Stating the order of a resolution map\<close>

text \<open>
  The identifiers as the first loop of \<^verbatim>\<open>resolve_group_ids\<close> sees them: blank ones are
  skipped, the others are stripped and cleaned. The numeric ones are those \<^verbatim>\<open>int\<close>
  accepts, the handles are the others.
\<close>

definition cleaned_identifiers :: "python \<Rightarrow> string list \<Rightarrow> string list" where
  "cleaned_identifiers py ids =
     map (\<lambda>i. clean_group_identifier py (py_strip py i))
       (filter (\<lambda>i. py_strip py i \<noteq> []) ids)"

definition numeric_identifiers :: "python \<Rightarrow> string list \<Rightarrow> string list" where
  "numeric_identifiers py ids =
     filter (\<lambda>c. py_int py c \<noteq> None) (cleaned_identifiers py ids)"

definition handle_identifiers :: "python \<Rightarrow> string list \<Rightarrow> string list" where
  "handle_identifiers py ids =
     filter (\<lambda>c. py_int py c = None) (cleaned_identifiers py ids)"

text \<open>The elements of a list in the order of their first occurrence.\<close>

fun first_occurrences :: "'a list \<Rightarrow> 'a list" where
  "first_occurrences [] = []"
| "first_occurrences (x # xs) = x # first_occurrences (filter (\<lambda>y. y \<noteq> x) xs)"

text \<open>
  \<open>extends_with B d d'\<close>: the dictionary \<open>d'\<close> has the keys of \<open>d\<close>, in their order,
  followed by new keys taken from \<open>B\<close>.
\<close>

definition extends_with :: "'k set \<Rightarrow> ('k \<times> 'v) list \<Rightarrow> ('k \<times> 'v) list \<Rightarrow> bool" where
  "extends_with B d d' =
     (\<exists>hs. dict_keys d' = dict_keys d @ hs \<and> set hs \<subseteq> B \<and> distinct hs
           \<and> set hs \<inter> set (dict_keys d) = {})"

text \<open>A provider that knows one community, \<open>durov\<close> with id 5, and names it in every reply.\<close>

definition world_durov :: world where
  "world_durov =
     \<lparr>http = (\<lambda>n req. Json (JObj [(''response'',
                 JArr [JObj [(''id'', JInt 5), (''screen_name'', JStr ''durov'')]])])),
      uuid4 = (\<lambda>n. ''guid'')\<rparr>"

section \<open>Stating what a reply says about a community\<close>



section \<open>Dictionaries\<close>

lemmas error_codes =
  ERROR_AUTH_def ERROR_TOO_MANY_REQUESTS_1_def ERROR_FLOOD_def ERROR_CAPTCHA_def
  ERROR_ACCESS_DENIED_def ERROR_TOO_MANY_REQUESTS_2_def ERROR_WALL_ACCESS_DENIED_def
  ERROR_WALL_DISABLED_def ERROR_GROUP_ACCESS_DENIED_def

lemma map_of_dict_set:
  "map_of (dict_set d k v) = (map_of d)(k \<mapsto> v)"
  by (induction d) (auto simp: fun_eq_iff)

lemma dict_keys_dict_set:
  "dict_keys (dict_set d k v) = (if k \<in> set (dict_keys d) then dict_keys d else dict_keys d @ [k])"
  unfolding dict_keys_def by (induction d) (auto simp: rev_image_eqI)

lemma sum_values_dict_set_new:
  "k \<notin> set (dict_keys d) \<Longrightarrow>
   sum_list (dict_values (dict_set d k v)) = sum_list (dict_values d) + (v::nat)"
  by (induction d) (auto simp: dict_keys_def dict_values_def)

lemma sum_values_dict_set_old:
  "map_of d k = Some (n::nat) \<Longrightarrow>
   sum_list (dict_values (dict_set d k v)) + n = sum_list (dict_values d) + v"
  by (induction d) (auto simp: dict_values_def split: if_splits)

lemma map_of_in_keys:
  "k \<in> set (dict_keys d) \<Longrightarrow> \<exists>v. map_of d k = Some v"
  by (induction d) (auto simp: dict_keys_def)

section \<open>The classification table\<close>

text \<open>
  C1. The classifier is a total function from provider codes to statuses and follows the
  fixed table: the auth-failure code gives \<open>auth_error\<close>; the two throttling codes and the
  flood code give \<open>rate_limit\<close>; the captcha code gives \<open>captcha\<close>; the access-denied and
  wall-access-denied codes give \<open>access_denied\<close>; the wall-disabled code gives
  \<open>wall_disabled\<close>; the group-access-denied code gives \<open>group_not_found\<close>; every other
  code gives \<open>unknown_error\<close>.
\<close>

theorem classify_error_table:
  "classify_error ERROR_AUTH = AUTH_ERROR
   \<and> classify_error ERROR_TOO_MANY_REQUESTS_1 = RATE_LIMIT
   \<and> classify_error ERROR_TOO_MANY_REQUESTS_2 = RATE_LIMIT
   \<and> classify_error ERROR_FLOOD = RATE_LIMIT
   \<and> classify_error ERROR_CAPTCHA = CAPTCHA
   \<and> classify_error ERROR_ACCESS_DENIED = ACCESS_DENIED
   \<and> classify_error ERROR_WALL_ACCESS_DENIED = ACCESS_DENIED
   \<and> classify_error ERROR_WALL_DISABLED = WALL_DISABLED
   \<and> classify_error ERROR_GROUP_ACCESS_DENIED = GROUP_NOT_FOUND
   \<and> (code \<notin> {ERROR_AUTH, ERROR_TOO_MANY_REQUESTS_1, ERROR_TOO_MANY_REQUESTS_2, ERROR_FLOOD,
                ERROR_CAPTCHA, ERROR_ACCESS_DENIED, ERROR_WALL_ACCESS_DENIED,
                ERROR_WALL_DISABLED, ERROR_GROUP_ACCESS_DENIED}
        \<longrightarrow> classify_error code = UNKNOWN_ERROR)"
  by (simp add: classify_error_def mapping_def error_codes)

theorem classify_error_table_witness:
  "(7::int) \<notin> {ERROR_AUTH, ERROR_TOO_MANY_REQUESTS_1, ERROR_TOO_MANY_REQUESTS_2, ERROR_FLOOD,
                ERROR_CAPTCHA, ERROR_ACCESS_DENIED, ERROR_WALL_ACCESS_DENIED,
                ERROR_WALL_DISABLED, ERROR_GROUP_ACCESS_DENIED}
   \<and> classify_error 7 = UNKNOWN_ERROR
   \<and> classify_error 5 = AUTH_ERROR"
proof -
  have out: "(7::int) \<notin> {ERROR_AUTH, ERROR_TOO_MANY_REQUESTS_1, ERROR_TOO_MANY_REQUESTS_2,
      ERROR_FLOOD, ERROR_CAPTCHA, ERROR_ACCESS_DENIED, ERROR_WALL_ACCESS_DENIED,
      ERROR_WALL_DISABLED, ERROR_GROUP_ACCESS_DENIED}"
    by (simp add: error_codes)
  from classify_error_table [of 7] out have "classify_error 7 = UNKNOWN_ERROR"
    by blast
  moreover from classify_error_table [of 7] have "classify_error 5 = AUTH_ERROR"
    by (simp add: ERROR_AUTH_def)
  ultimately show ?thesis using out by blast
qed

section \<open>The summary\<close>

lemma summary_step_ok:
  "\<exists>s'. summary_step result s = Inr s'
     \<and> total s' = total s
     \<and> success s' + failed s' = success s + failed s + 1
     \<and> sum_list (dict_values (by_status s')) = sum_list (dict_values (by_status s)) + 1"
proof (cases "status_value (status result) \<in> set (dict_keys (by_status s))")
  case True
  then obtain n where n: "map_of (by_status s) (status_value (status result)) = Some n"
    using map_of_in_keys by fastforce
  from sum_values_dict_set_old [OF n, of "n + 1"]
  have "sum_list (dict_values (dict_set (by_status s) (status_value (status result)) (n + 1)))
        = sum_list (dict_values (by_status s)) + 1"
    by simp
  with True n show ?thesis
    by (auto simp: summary_step_def dict_getitem_def Let_def)
next
  case False
  let ?k = "status_value (status result)"
  let ?d = "dict_set (by_status s) ?k 0"
  have look: "map_of ?d ?k = Some 0"
    by (simp add: map_of_dict_set)
  have "sum_list (dict_values ?d) = sum_list (dict_values (by_status s))"
    using sum_values_dict_set_new [OF False, of 0] by simp
  moreover have "sum_list (dict_values (dict_set ?d ?k 1)) + 0 = sum_list (dict_values ?d) + 1"
    using sum_values_dict_set_old [OF look, of 1] by simp
  ultimately have "sum_list (dict_values (dict_set ?d ?k 1)) = sum_list (dict_values (by_status s)) + 1"
    by simp
  with False look show ?thesis
    by (auto simp: summary_step_def dict_getitem_def Let_def)
qed

lemma summary_loop_ok:
  "\<exists>s'. summary_loop results s = Inr s'
     \<and> total s' = total s
     \<and> success s' + failed s' = success s + failed s + length results
     \<and> sum_list (dict_values (by_status s')) = sum_list (dict_values (by_status s)) + length results"
proof (induction results arbitrary: s)
  case Nil
  show ?case by simp
next
  case (Cons result results)
  obtain s1 where s1: "summary_step result s = Inr s1" "total s1 = total s"
      "success s1 + failed s1 = success s + failed s + 1"
      "sum_list (dict_values (by_status s1)) = sum_list (dict_values (by_status s)) + 1"
    using summary_step_ok [of result s] by blast
  from Cons.IH [of s1] obtain s' where s': "summary_loop results s1 = Inr s'"
      "total s' = total s1"
      "success s' + failed s' = success s1 + failed s1 + length results"
      "sum_list (dict_values (by_status s')) = sum_list (dict_values (by_status s1)) + length results"
    by blast
  from s1 s' show ?case by simp
qed

text \<open>
  C9. For every result list, \<^verbatim>\<open>get_results_summary\<close> returns a summary (the lookup in its
  loop never raises) in which the counts of \<open>by_status\<close> add up to \<open>total\<close>, \<open>total\<close> is
  \<open>success + failed\<close>, and \<open>total\<close> is the length of the list.
\<close>

theorem get_results_summary_totals:
  "\<exists>s. get_results_summary results = Inr s
     \<and> sum_list (dict_values (by_status s)) = total s
     \<and> total s = success s + failed s
     \<and> total s = length results"
  using summary_loop_ok
    [of results "\<lparr>total = length results, success = 0, failed = 0, by_status = []\<rparr>"]
  by (auto simp: get_results_summary_def dict_values_def)

section \<open>The retry policy\<close>


lemma requests_of_append [simp]: "requests_of (a @ b) = requests_of a @ requests_of b"
  by (induction a rule: requests_of.induct) auto

lemma sleeps_of_append [simp]: "sleeps_of (a @ b) = sleeps_of a @ sleeps_of b"
  by (induction a rule: sleeps_of.induct) auto

lemma run_refl: "run st st []"
  by (simp add: run_def)

lemma run_trans: "run a b r1 \<Longrightarrow> run b c r2 \<Longrightarrow> run a c (r1 @ r2)"
  by (simp add: run_def)

lemma run_vk_log: "run st st' r \<Longrightarrow> run st (vk_log msg level st') r"
  by (simp add: run_def vk_log_def)

lemma run_time_sleep: "run st st' r \<Longrightarrow> run st (time_sleep n st') r"
  by (simp add: run_def time_sleep_def)

lemma run_post:
  "session_post w req (wait_rate_limit st) = (reply, st') \<Longrightarrow> run st st' [req]"
  by (auto simp: session_post_def wait_rate_limit_def run_def)

lemma handle_data_run:
  "handle_data rc a data st = (x, st') \<Longrightarrow> run st0 st r \<Longrightarrow> run st0 st' r"
  by (auto simp: handle_data_def Let_def run_vk_log run_time_sleep
           split: sum.splits bool.splits if_splits)

lemma api_attempt_run:
  assumes "api_attempt w meth ps rc a st = (x, st')"
  shows "run st st' [PostData (BASE_URL @ ''/'' @ meth) ps 30]"
proof -
  obtain reply st1 where p: "session_post w (PostData (BASE_URL @ ''/'' @ meth) ps 30) (wait_rate_limit st) = (reply, st1)"
    by (cases "session_post w (PostData (BASE_URL @ ''/'' @ meth) ps 30) (wait_rate_limit st)")
  have r1: "run st st1 [PostData (BASE_URL @ ''/'' @ meth) ps 30]"
    using run_post [OF p] .
  show ?thesis
  proof (cases reply)
    case (Raises e)
    with assms p r1 show ?thesis
      by (auto simp: api_attempt_def run_vk_log run_time_sleep split: if_splits)
  next
    case (Json data)
    with assms p have "handle_data rc a data st1 = (x, st')"
      by (simp add: api_attempt_def)
    from handle_data_run [OF this r1] show ?thesis .
  qed
qed

lemma api_loop_run:
  "api_loop w meth ps rc as st = (x, st') \<Longrightarrow>
   \<exists>k\<le>length as. (as \<noteq> [] \<longrightarrow> 0 < k)
      \<and> run st st' (replicate k (PostData (BASE_URL @ ''/'' @ meth) ps 30))"
proof (induction as arbitrary: st)
  case Nil
  then show ?case by (auto simp: run_refl)
next
  case (Cons a as)
  let ?req = "PostData (BASE_URL @ ''/'' @ meth) ps 30"
  obtain y st1 where a: "api_attempt w meth ps rc a st = (y, st1)"
    by (cases "api_attempt w meth ps rc a st")
  have r1: "run st st1 [?req]" using api_attempt_run [OF a] .
  show ?case
  proof (cases y)
    case Continue
    with Cons.prems a have "api_loop w meth ps rc as st1 = (x, st')" by simp
    from Cons.IH [OF this] obtain k where k: "k \<le> length as" "run st1 st' (replicate k ?req)"
      by blast
    from run_trans [OF r1 k(2)] have "run st st' (replicate (Suc k) ?req)" by simp
    with k(1) show ?thesis by (intro exI [of _ "Suc k"]) simp
  next
    case (Return r)
    with Cons.prems a have "st' = st1" by simp
    with r1 have "run st st' (replicate (Suc 0) ?req)" by simp
    then show ?thesis by (intro exI [of _ "Suc 0"]) simp
  next
    case (Raise e)
    with Cons.prems a have "st' = st1" by simp
    with r1 have "run st st' (replicate (Suc 0) ?req)" by simp
    then show ?thesis by (intro exI [of _ "Suc 0"]) simp
  qed
qed

lemma api_request_run:
  "api_request w meth ps st = (x, st') \<Longrightarrow>
   \<exists>k. 0 < k \<and> k \<le> 3 \<and> run st st' (replicate k (api_post st meth ps))"
  using api_loop_run [of w meth "api_params st ps" 3 "[0..<3]" st x st']
  by (auto simp: api_request_def api_request_n_def api_post_def)

lemma range3: "[0..<3] = [0, 1, 2]"
  by (simp add: upt_rec)

lemma map_of_key: "map_of kv k = Some v \<Longrightarrow> k \<in> fst ` set kv"
  by (induction kv) (auto split: if_splits)

lemma handle_data_error:
  assumes "map_of kv ''error'' = Some (JObj ekv)"
      and "map_of ekv ''error_code'' = Some (JInt c)"
      and "map_of ekv ''error_msg'' = Some (JStr m)"
  shows "handle_data rc attempt (JObj kv) st =
     (if c \<in> {ERROR_TOO_MANY_REQUESTS_1, ERROR_TOO_MANY_REQUESTS_2, ERROR_FLOOD}
         \<and> int attempt < int rc - 1
      then (Continue, time_sleep ((attempt + 1) * 2)
                        (vk_log (MsgRateLimit ((attempt + 1) * 2)) ''warning'' st))
      else (Raise (VKApiError c m), st))"
  using assms map_of_key [OF assms(1)]
  by (simp add: handle_data_def api_error_def Let_def)

text \<open>
  C6. Every call of \<^verbatim>\<open>_api_request\<close>, whatever the provider answers and whether the call
  returns or raises, posts its request at least once and at most three times, and posts
  nothing else: it is the loop over the attempts 0, 1 and 2. Take any attempt of this
  loop whose reply is an error object with an integer code and a text. If the code is
  none of the three throttling codes, the loop ends on this attempt with a \<open>VKApiError\<close>
  carrying the code and the text: nothing is slept, nothing is retried. If the code is a
  throttling code and the attempt is not the last one (index 0 or 1), the client logs,
  sleeps \<open>(attempt + 1) * 2\<close> seconds and goes on with the remaining attempts. If it is a
  throttling code on the last attempt (index 2), the loop ends with a \<open>VKApiError\<close>
  carrying this last code and text.
\<close>

theorem api_request_retry_policy:
  "(\<exists>k. 0 < k \<and> k \<le> 3
        \<and> run st0 (snd (api_request w meth ps0 st0)) (replicate k (api_post st0 meth ps0)))
   \<and> api_request w meth ps0 st0 = api_loop w meth (api_params st0 ps0) 3 [0, 1, 2] st0
   \<and> (http w (request_count st + 1) (PostData (BASE_URL @ ''/'' @ meth) ps 30) = Json (JObj kv)
      \<and> map_of kv ''error'' = Some (JObj ekv)
      \<and> map_of ekv ''error_code'' = Some (JInt c)
      \<and> map_of ekv ''error_msg'' = Some (JStr m)
      \<longrightarrow>
        (c \<notin> {ERROR_TOO_MANY_REQUESTS_1, ERROR_TOO_MANY_REQUESTS_2, ERROR_FLOOD} \<longrightarrow>
          api_loop w meth ps 3 (attempt # rest) st =
            (Inl (VKApiError c m),
             st\<lparr>request_count := request_count st + 1,
                events := events st @ [RateLimitWait, Http (PostData (BASE_URL @ ''/'' @ meth) ps 30)]\<rparr>))
      \<and> (c \<in> {ERROR_TOO_MANY_REQUESTS_1, ERROR_TOO_MANY_REQUESTS_2, ERROR_FLOOD} \<and> attempt < 2 \<longrightarrow>
          api_loop w meth ps 3 (attempt # rest) st =
            api_loop w meth ps 3 rest
              (st\<lparr>request_count := request_count st + 1,
                  events := events st @ [RateLimitWait, Http (PostData (BASE_URL @ ''/'' @ meth) ps 30),
                                         Log (MsgRateLimit ((attempt + 1) * 2)) ''warning'',
                                         Sleep ((attempt + 1) * 2)]\<rparr>))
      \<and> (c \<in> {ERROR_TOO_MANY_REQUESTS_1, ERROR_TOO_MANY_REQUESTS_2, ERROR_FLOOD} \<and> attempt = 2 \<longrightarrow>
          api_loop w meth ps 3 (attempt # rest) st =
            (Inl (VKApiError c m),
             st\<lparr>request_count := request_count st + 1,
                events := events st @ [RateLimitWait, Http (PostData (BASE_URL @ ''/'' @ meth) ps 30)]\<rparr>)))"
proof -
  let ?req = "PostData (BASE_URL @ ''/'' @ meth) ps 30"
  let ?posted = "st\<lparr>request_count := request_count st + 1,
                     events := events st @ [RateLimitWait, Http ?req]\<rparr>"
  let ?codes = "{ERROR_TOO_MANY_REQUESTS_1, ERROR_TOO_MANY_REQUESTS_2, ERROR_FLOOD}"
  have bound: "\<exists>k. 0 < k \<and> k \<le> 3
        \<and> run st0 (snd (api_request w meth ps0 st0)) (replicate k (api_post st0 meth ps0))"
    using api_request_run [of w meth ps0 st0 "fst (api_request w meth ps0 st0)"
                              "snd (api_request w meth ps0 st0)"]
    by simp
  have unfold: "api_request w meth ps0 st0 = api_loop w meth (api_params st0 ps0) 3 [0, 1, 2] st0"
    by (simp add: api_request_def api_request_n_def range3)
  have attempts: "(c \<notin> ?codes \<longrightarrow>
          api_loop w meth ps 3 (attempt # rest) st = (Inl (VKApiError c m), ?posted))
      \<and> (c \<in> ?codes \<and> attempt < 2 \<longrightarrow>
          api_loop w meth ps 3 (attempt # rest) st =
            api_loop w meth ps 3 rest
              (st\<lparr>request_count := request_count st + 1,
                  events := events st @ [RateLimitWait, Http ?req,
                                         Log (MsgRateLimit ((attempt + 1) * 2)) ''warning'',
                                         Sleep ((attempt + 1) * 2)]\<rparr>))
      \<and> (c \<in> ?codes \<and> attempt = 2 \<longrightarrow>
          api_loop w meth ps 3 (attempt # rest) st = (Inl (VKApiError c m), ?posted))"
    if reply: "http w (request_count st + 1) ?req = Json (JObj kv)"
      and err: "map_of kv ''error'' = Some (JObj ekv)"
      and code: "map_of ekv ''error_code'' = Some (JInt c)"
      and msg: "map_of ekv ''error_msg'' = Some (JStr m)"
  proof -
    have post: "session_post w ?req (wait_rate_limit st) = (Json (JObj kv), ?posted)"
      using reply by (simp add: session_post_def wait_rate_limit_def)
    have attempt: "api_attempt w meth ps 3 attempt st = handle_data 3 attempt (JObj kv) ?posted"
      using post by (simp add: api_attempt_def)
    note hd = handle_data_error [OF err code msg, of 3 attempt ?posted]
    have other: "c \<notin> ?codes \<longrightarrow>
            api_loop w meth ps 3 (attempt # rest) st = (Inl (VKApiError c m), ?posted)"
      using attempt hd by simp
    have retry: "c \<in> ?codes \<and> attempt < 2 \<longrightarrow>
            api_loop w meth ps 3 (attempt # rest) st =
              api_loop w meth ps 3 rest
                (st\<lparr>request_count := request_count st + 1,
                    events := events st @ [RateLimitWait, Http ?req,
                                           Log (MsgRateLimit ((attempt + 1) * 2)) ''warning'',
                                           Sleep ((attempt + 1) * 2)]\<rparr>)"
      using attempt hd by (auto simp: time_sleep_def vk_log_def)
    have last: "c \<in> ?codes \<and> attempt = 2 \<longrightarrow>
            api_loop w meth ps 3 (attempt # rest) st = (Inl (VKApiError c m), ?posted)"
      using attempt hd by auto
    from other retry last show ?thesis by blast
  qed
  from bound unfold attempts show ?thesis by blast
qed

theorem api_request_retry_policy_witness:
  "fst (api_loop world_denied ''wall.post'' [] 3 [0, 1, 2] demo_client)
     = Inl (VKApiError 15 ''Access denied'')
   \<and> sleeps_of (events (snd (api_loop world_denied ''wall.post'' [] 3 [0, 1, 2] demo_client))) = []
   \<and> api_loop world_throttled ''wall.post'' [] 3 [0, 1, 2] demo_client
     = api_loop world_throttled ''wall.post'' [] 3 [1, 2]
         (demo_client\<lparr>request_count := 1,
            events := [RateLimitWait, Http (PostData (BASE_URL @ ''/wall.post'') [] 30),
                       Log (MsgRateLimit 2) ''warning'', Sleep 2]\<rparr>)
   \<and> fst (api_loop world_throttled ''wall.post'' [] 3 [2] demo_client)
     = Inl (VKApiError 6 ''Too many requests per second'')
   \<and> sleeps_of (events (snd (api_request world_throttled ''wall.post'' [] demo_client))) = [2, 4]
   \<and> (\<exists>k. 0 < k \<and> k \<le> 3
          \<and> run demo_client (snd (api_request world_down ''wall.post'' [] demo_client))
                (replicate k (api_post demo_client ''wall.post'' [])))
   \<and> request_count (snd (api_request world_down ''wall.post'' [] demo_client)) = 3
   \<and> (\<exists>k. 0 < k \<and> k \<le> 3
          \<and> run demo_client (snd (api_request world_mixed ''groups.getById'' [] demo_client))
                (replicate k (api_post demo_client ''groups.getById'' [])))
   \<and> request_count (snd (api_request world_mixed ''groups.getById'' [] demo_client)) = 1"
proof -
  let ?kv = "[(''error'', JObj [(''error_code'', JInt 15), (''error_msg'', JStr ''Access denied'')])]"
  let ?ekv = "[(''error_code'', JInt 15), (''error_msg'', JStr ''Access denied'')]"
  let ?kv6 = "[(''error'', JObj [(''error_code'', JInt 6),
                 (''error_msg'', JStr ''Too many requests per second'')])]"
  let ?ekv6 = "[(''error_code'', JInt 6), (''error_msg'', JStr ''Too many requests per second'')]"
  have d: "http world_denied (request_count demo_client + 1)
             (PostData (BASE_URL @ ''/'' @ ''wall.post'') [] 30) = Json (JObj ?kv)
           \<and> map_of ?kv ''error'' = Some (JObj ?ekv)
           \<and> map_of ?ekv ''error_code'' = Some (JInt 15)
           \<and> map_of ?ekv ''error_msg'' = Some (JStr ''Access denied'')"
    by (simp add: world_denied_def error_body_def)
  have t: "http world_throttled (request_count demo_client + 1)
             (PostData (BASE_URL @ ''/'' @ ''wall.post'') [] 30) = Json (JObj ?kv6)
           \<and> map_of ?kv6 ''error'' = Some (JObj ?ekv6)
           \<and> map_of ?ekv6 ''error_code'' = Some (JInt 6)
           \<and> map_of ?ekv6 ''error_msg'' = Some (JStr ''Too many requests per second'')"
    by (simp add: world_throttled_def error_body_def)
  have fifteen: "(15::int) \<notin> {ERROR_TOO_MANY_REQUESTS_1, ERROR_TOO_MANY_REQUESTS_2, ERROR_FLOOD}"
    by (simp add: error_codes)
  have six: "(6::int) \<in> {ERROR_TOO_MANY_REQUESTS_1, ERROR_TOO_MANY_REQUESTS_2, ERROR_FLOOD}"
    by (simp add: error_codes)
  from d fifteen api_request_retry_policy [where w = world_denied and st = demo_client
      and meth = "''wall.post''" and ps = "[]" and kv = ?kv and ekv = ?ekv and c = 15
      and m = "''Access denied''" and attempt = 0 and rest = "[1, 2]"]
  have "api_loop world_denied ''wall.post'' [] 3 (0 # [1, 2]) demo_client =
      (Inl (VKApiError 15 ''Access denied''),
       demo_client\<lparr>request_count := request_count demo_client + 1,
          events := events demo_client @
            [RateLimitWait, Http (PostData (BASE_URL @ ''/'' @ ''wall.post'') [] 30)]\<rparr>)"
    by blast
  then have denied: "api_loop world_denied ''wall.post'' [] 3 [0, 1, 2] demo_client =
      (Inl (VKApiError 15 ''Access denied''),
       demo_client\<lparr>request_count := request_count demo_client + 1,
          events := events demo_client @
            [RateLimitWait, Http (PostData (BASE_URL @ ''/'' @ ''wall.post'') [] 30)]\<rparr>)"
    by (simp del: api_loop.simps)
  have "(0::nat) < 2"
    by simp
  with t six api_request_retry_policy [where w = world_throttled and st = demo_client
      and meth = "''wall.post''" and ps = "[]" and kv = ?kv6 and ekv = ?ekv6 and c = 6
      and m = "''Too many requests per second''" and attempt = 0 and rest = "[1, 2]"]
  have "api_loop world_throttled ''wall.post'' [] 3 (0 # [1, 2]) demo_client
     = api_loop world_throttled ''wall.post'' [] 3 [1, 2]
         (demo_client\<lparr>request_count := request_count demo_client + 1,
            events := events demo_client @
                 [RateLimitWait, Http (PostData (BASE_URL @ ''/'' @ ''wall.post'') [] 30),
                  Log (MsgRateLimit ((0 + 1) * 2)) ''warning'', Sleep ((0 + 1) * 2)]\<rparr>)"
    by blast
  then have retry: "api_loop world_throttled ''wall.post'' [] 3 [0, 1, 2] demo_client
     = api_loop world_throttled ''wall.post'' [] 3 [1, 2]
         (demo_client\<lparr>request_count := 1,
            events := [RateLimitWait, Http (PostData (BASE_URL @ ''/wall.post'') [] 30),
                       Log (MsgRateLimit 2) ''warning'', Sleep 2]\<rparr>)"
    by (simp add: demo_client_def del: api_loop.simps)
  from t six api_request_retry_policy [where w = world_throttled and st = demo_client
      and meth = "''wall.post''" and ps = "[]" and kv = ?kv6 and ekv = ?ekv6 and c = 6
      and m = "''Too many requests per second''" and attempt = 2 and rest = "[]"]
  have "api_loop world_throttled ''wall.post'' [] 3 (2 # []) demo_client
     = (Inl (VKApiError 6 ''Too many requests per second''),
        demo_client\<lparr>request_count := request_count demo_client + 1,
          events := events demo_client @
            [RateLimitWait, Http (PostData (BASE_URL @ ''/'' @ ''wall.post'') [] 30)]\<rparr>)"
    by blast
  then have last: "fst (api_loop world_throttled ''wall.post'' [] 3 [2] demo_client)
     = Inl (VKApiError 6 ''Too many requests per second'')"
    by (simp del: api_loop.simps)
  have sleeps: "sleeps_of (events (snd (api_request world_throttled ''wall.post'' [] demo_client))) = [2, 4]"
    by code_simp
  from denied have d1: "fst (api_loop world_denied ''wall.post'' [] 3 [0, 1, 2] demo_client)
     = Inl (VKApiError 15 ''Access denied'')" by simp
  from denied have d2: "sleeps_of (events (snd (api_loop world_denied ''wall.post'' [] 3 [0, 1, 2] demo_client))) = []"
    by (simp add: demo_client_def)
  from api_request_retry_policy [where w = world_down and ?st0.0 = demo_client
      and meth = "''wall.post''" and ?ps0.0 = "[]"]
  have down: "\<exists>k. 0 < k \<and> k \<le> 3
          \<and> run demo_client (snd (api_request world_down ''wall.post'' [] demo_client))
                (replicate k (api_post demo_client ''wall.post'' []))"
    by blast
  have down3: "request_count (snd (api_request world_down ''wall.post'' [] demo_client)) = 3"
    by code_simp
  from api_request_retry_policy [where w = world_mixed and ?st0.0 = demo_client
      and meth = "''groups.getById''" and ?ps0.0 = "[]"]
  have ok: "\<exists>k. 0 < k \<and> k \<le> 3
          \<and> run demo_client (snd (api_request world_mixed ''groups.getById'' [] demo_client))
                (replicate k (api_post demo_client ''groups.getById'' []))"
    by blast
  have ok1: "request_count (snd (api_request world_mixed ''groups.getById'' [] demo_client)) = 1"
    by code_simp
  from d1 d2 retry last sleeps down down3 ok ok1 show ?thesis by blast
qed
section \<open>Submitting and dispatching\<close>


lemma classify_error_range:
  "classify_error c \<in> {AUTH_ERROR, RATE_LIMIT, CAPTCHA, ACCESS_DENIED, WALL_DISABLED,
                        GROUP_NOT_FOUND, UNKNOWN_ERROR}"
  by (simp add: classify_error_def mapping_def)

lemma classify_error_auth:
  "classify_error c = AUTH_ERROR \<longleftrightarrow> c = ERROR_AUTH"
  by (simp add: classify_error_def mapping_def error_codes)

lemma post_to_suggestion_result:
  assumes "post_to_suggestion w gid gname message attachments st = (Inr r, st')"
  shows "group_id r = gid \<and> group_name r = gname
       \<and> (status r = SUCCESS \<or> status r = UNKNOWN_ERROR \<or> (\<exists>c. status r = classify_error c))"
  using assms
  by (auto simp: post_to_suggestion_def split: prod.splits sum.splits exn.splits if_splits)

lemma post_to_suggestion_status:
  assumes "post_to_suggestion w gid gname message attachments st = (Inr r, st')"
  shows "status r \<noteq> NOT_MEMBER \<and> status r \<noteq> NETWORK_ERROR"
proof -
  from post_to_suggestion_result [OF assms]
  consider "status r = SUCCESS" | "status r = UNKNOWN_ERROR" | c where "status r = classify_error c"
    by blast
  then show ?thesis
  proof cases
    case 3
    with classify_error_range [of c] show ?thesis by auto
  qed auto
qed

lemma post_to_suggestion_run:
  assumes "post_to_suggestion w gid gname message attachments st = (x, st')"
  shows "\<exists>k. 0 < k \<and> k \<le> 3
     \<and> run st st' (replicate k (api_post st ''wall.post''
                                  (post_params gid message attachments (uuid4 w (request_count st)))))"
proof -
  let ?ps = "post_params gid message attachments (uuid4 w (request_count st))"
  obtain y st1 where a: "api_request w ''wall.post'' ?ps st = (y, st1)"
    by (cases "api_request w ''wall.post'' ?ps st")
  with assms have "st' = st1"
    by (auto simp: post_to_suggestion_def split: prod.splits sum.splits exn.splits if_splits)
  with api_request_run [OF a] show ?thesis by simp
qed

lemma wall_post_request:
  "is_wall_post g (api_post st ''wall.post'' (post_params gid message attachments guid)) \<longleftrightarrow> g = gid"
  by (cases attachments)
     (auto simp: api_post_def api_params_def post_params_def map_of_dict_set Let_def)



lemma run_report_progress: "run st st' r \<Longrightarrow> run st (report_progress p c n res st') r"
  by (simp add: run_def report_progress_def)

lemma dispatch_results:
  "dispatch w gi message attachments prog stop n i targets results st = (Inr rs, st') \<Longrightarrow>
   \<exists>new. rs = results @ new \<and> length new \<le> length targets
     \<and> list_all2 (\<lambda>t r. group_id r = snd t
                        \<and> (suggest_closed (map_of gi (snd t)) \<longrightarrow> status r = SUGGEST_DISABLED)
                        \<and> status r \<noteq> NOT_MEMBER \<and> status r \<noteq> NETWORK_ERROR)
          (take (length new) targets) new
     \<and> (stop \<longrightarrow> (\<forall>r\<in>set (butlast new). status r \<noteq> AUTH_ERROR))
     \<and> (stop \<and> new \<noteq> [] \<and> status (last new) = AUTH_ERROR
          \<longrightarrow> (\<exists>evs. events st' = evs @ [Log MsgAuthError ''error'']))"
proof (induction targets arbitrary: i results st)
  case Nil
  then show ?case by simp
next
  case (Cons t rest)
  obtain ident gid where t: "t = (ident, gid)" by (cases t)
  let ?info = "map_of gi gid"
  let ?gname = "case ?info of None \<Rightarrow> group_label @ str_int gid | Some x \<Rightarrow> name x"
  show ?case
  proof (cases "suggest_closed ?info")
    case True
    let ?r0 = "\<lparr>group_id = gid, group_name = ?gname, status = SUGGEST_DISABLED,
                post_id = None, error_message = Some suggest_closed_text, error_code = None\<rparr>"
    let ?st1 = "report_progress prog (i + 1) n ?r0
                  (vk_log (MsgSuggestClosed (i + 1) n ?gname) ''warning'' st)"
    from Cons.prems t True
    have "dispatch w gi message attachments prog stop n (i + 1) rest (results @ [?r0]) ?st1
            = (Inr rs, st')"
      by (simp add: Let_def)
    from Cons.IH [OF this] obtain new where new: "rs = (results @ [?r0]) @ new"
        "length new \<le> length rest"
        "list_all2 (\<lambda>t r. group_id r = snd t
                        \<and> (suggest_closed (map_of gi (snd t)) \<longrightarrow> status r = SUGGEST_DISABLED)
                        \<and> status r \<noteq> NOT_MEMBER \<and> status r \<noteq> NETWORK_ERROR)
          (take (length new) rest) new"
        "stop \<longrightarrow> (\<forall>r\<in>set (butlast new). status r \<noteq> AUTH_ERROR)"
        "stop \<and> new \<noteq> [] \<and> status (last new) = AUTH_ERROR
          \<longrightarrow> (\<exists>evs. events st' = evs @ [Log MsgAuthError ''error''])"
      by blast
    show ?thesis
      using new t by (intro exI [of _ "?r0 # new"]) auto
  next
    case False
    obtain x st1 where p: "post_to_suggestion w gid ?gname message attachments
                             (vk_log (MsgSending (i + 1) n ?gname) ''info'' st) = (x, st1)"
      by (cases "post_to_suggestion w gid ?gname message attachments
                   (vk_log (MsgSending (i + 1) n ?gname) ''info'' st)")
    from Cons.prems t False p obtain r where x: "x = Inr r"
      by (cases x) (simp_all add: Let_def)
    note res = post_to_suggestion_result [OF p [unfolded x]]
    note stat = post_to_suggestion_status [OF p [unfolded x]]
    let ?st2 = "if status r = SUCCESS
                then vk_log (MsgSent (i + 1) n ?gname (post_id r)) ''info'' st1
                else vk_log (MsgNotSent (i + 1) n ?gname (failure_text r)) ''warning'' st1"
    show ?thesis
    proof (cases "stop \<and> status r = AUTH_ERROR")
      case True
      with Cons.prems t False p x
      have "rs = results @ [r]" "st' = vk_log MsgAuthError ''error'' ?st2"
        by (simp_all add: Let_def)
      with res stat t False show ?thesis
        by (intro exI [of _ "[r]"]) (auto simp: vk_log_def)
    next
      case nobreak: False
      with Cons.prems t False p x
      have "dispatch w gi message attachments prog stop n (i + 1) rest (results @ [r])
              (report_progress prog (i + 1) n r ?st2) = (Inr rs, st')"
        by (auto simp: Let_def split: if_splits)
      from Cons.IH [OF this] obtain new where new: "rs = (results @ [r]) @ new"
        "length new \<le> length rest"
        "list_all2 (\<lambda>t r. group_id r = snd t
                        \<and> (suggest_closed (map_of gi (snd t)) \<longrightarrow> status r = SUGGEST_DISABLED)
                        \<and> status r \<noteq> NOT_MEMBER \<and> status r \<noteq> NETWORK_ERROR)
          (take (length new) rest) new"
        "stop \<longrightarrow> (\<forall>r\<in>set (butlast new). status r \<noteq> AUTH_ERROR)"
        "stop \<and> new \<noteq> [] \<and> status (last new) = AUTH_ERROR
          \<longrightarrow> (\<exists>evs. events st' = evs @ [Log MsgAuthError ''error''])"
        by blast
      show ?thesis
        using new t res stat False nobreak by (intro exI [of _ "r # new"]) auto
    qed
  qed
qed


lemma run_start_vk_log: "run (vk_log msg level st) st' r \<Longrightarrow> run st st' r"
  by (simp add: run_def vk_log_def)

lemma dispatch_run:
  "dispatch w gi message attachments prog stop n i targets results st = (x, st') \<Longrightarrow>
   \<exists>reqs. run st st' reqs
     \<and> (\<forall>r\<in>set reqs. \<exists>t\<in>set targets. is_wall_post (snd t) r
                                        \<and> \<not> suggest_closed (map_of gi (snd t)))"
proof (induction targets arbitrary: i results st)
  case Nil
  then show ?case by (auto simp: run_refl)
next
  case (Cons t rest)
  obtain ident gid where t: "t = (ident, gid)" by (cases t)
  let ?info = "map_of gi gid"
  let ?gname = "case ?info of None \<Rightarrow> group_label @ str_int gid | Some x \<Rightarrow> name x"
  show ?case
  proof (cases "suggest_closed ?info")
    case True
    let ?r0 = "\<lparr>group_id = gid, group_name = ?gname, status = SUGGEST_DISABLED,
                post_id = None, error_message = Some suggest_closed_text, error_code = None\<rparr>"
    let ?st1 = "report_progress prog (i + 1) n ?r0
                  (vk_log (MsgSuggestClosed (i + 1) n ?gname) ''warning'' st)"
    from Cons.prems t True
    have "dispatch w gi message attachments prog stop n (i + 1) rest (results @ [?r0]) ?st1
            = (x, st')"
      by (simp add: Let_def)
    from Cons.IH [OF this] obtain reqs where reqs: "run ?st1 st' reqs"
        "\<forall>r\<in>set reqs. \<exists>t\<in>set rest. is_wall_post (snd t) r
                                        \<and> \<not> suggest_closed (map_of gi (snd t))"
      by blast
    have "run st ?st1 []"
      by (intro run_report_progress run_vk_log run_refl)
    from run_trans [OF this reqs(1)] have "run st st' reqs" by simp
    with reqs(2) show ?thesis by auto
  next
    case False
    let ?st0 = "vk_log (MsgSending (i + 1) n ?gname) ''info'' st"
    let ?req = "api_post ?st0 ''wall.post''
                  (post_params gid message attachments (uuid4 w (request_count ?st0)))"
    obtain y st1 where p: "post_to_suggestion w gid ?gname message attachments ?st0 = (y, st1)"
      by (cases "post_to_suggestion w gid ?gname message attachments ?st0")
    from post_to_suggestion_run [OF p] obtain k where k: "run ?st0 st1 (replicate k ?req)"
      by blast
    then have r1: "run st st1 (replicate k ?req)"
      by (rule run_start_vk_log)
    have wall: "is_wall_post gid ?req"
      by (simp add: wall_post_request)
    show ?thesis
    proof (cases y)
      case (Inl e)
      with Cons.prems t False p have "st' = st1"
        by (simp add: Let_def)
      with r1 wall t False show ?thesis
        by (intro exI [of _ "replicate k ?req"]) auto
    next
      case (Inr r)
      let ?st2 = "if status r = SUCCESS
                  then vk_log (MsgSent (i + 1) n ?gname (post_id r)) ''info'' st1
                  else vk_log (MsgNotSent (i + 1) n ?gname (failure_text r)) ''warning'' st1"
      have r2: "run st ?st2 (replicate k ?req)"
        using r1 by (simp add: run_vk_log)
      show ?thesis
      proof (cases "stop \<and> status r = AUTH_ERROR")
        case True
        with Cons.prems t False p Inr have "st' = vk_log MsgAuthError ''error'' ?st2"
          by (simp add: Let_def)
        with r2 have "run st st' (replicate k ?req)"
          by (simp add: run_vk_log)
        with wall t False show ?thesis
          by (intro exI [of _ "replicate k ?req"]) auto
      next
        case nobreak: False
        with Cons.prems t False p Inr
        have "dispatch w gi message attachments prog stop n (i + 1) rest (results @ [r])
                (report_progress prog (i + 1) n r ?st2) = (x, st')"
          by (auto simp: Let_def split: if_splits)
        from Cons.IH [OF this] obtain reqs where reqs:
            "run (report_progress prog (i + 1) n r ?st2) st' reqs"
            "\<forall>r\<in>set reqs. \<exists>t\<in>set rest. is_wall_post (snd t) r
                                        \<and> \<not> suggest_closed (map_of gi (snd t))"
          by blast
        have "run st (report_progress prog (i + 1) n r ?st2) (replicate k ?req)"
          using r2 by (rule run_report_progress)
        from run_trans [OF this reqs(1)] have "run st st' (replicate k ?req @ reqs)" .
        with reqs(2) wall t False show ?thesis
          by (intro exI [of _ "replicate k ?req @ reqs"]) auto
      qed
    qed
  qed
qed

lemma is_wall_post_unique: "is_wall_post g r \<Longrightarrow> is_wall_post g' r \<Longrightarrow> g = g'"
  by (cases r) auto




lemma api_request_transport_failure:
  assumes "\<forall>k\<in>{1, 2, 3}. \<exists>e. http w (request_count st + k) (api_post st meth ps) = Raises e"
  shows "\<exists>e. fst (api_request w meth ps st) = Inl (VKApiError (- 1) (network_error_text @ e))"
proof -
  from assms obtain e1 e2 e3 where
      "http w (request_count st + 1) (api_post st meth ps) = Raises e1"
      "http w (request_count st + 2) (api_post st meth ps) = Raises e2"
      "http w (request_count st + 3) (api_post st meth ps) = Raises e3"
    by auto
  then have "fst (api_request w meth ps st) = Inl (VKApiError (- 1) (network_error_text @ e3))"
    by (simp add: api_request_def api_request_n_def range3 api_post_def api_attempt_def
          session_post_def wait_rate_limit_def vk_log_def time_sleep_def numeral_3_eq_3)
  then show ?thesis ..
qed

lemma api_loop_transport_last:
  assumes "http w (request_count st + 1) (PostData (BASE_URL @ ''/'' @ meth) ps 30) = Raises e"
  shows "fst (api_loop w meth ps 3 (2 # rest) st) = Inl (VKApiError (- 1) (network_error_text @ e))"
  using assms
  by (simp add: api_attempt_def session_post_def wait_rate_limit_def)

section \<open>The dispatch loop, target by target\<close>


lemma dispatch_complete:
  "dispatch w gi message attachments prog stop n i targets results st = (Inr rs, st') \<Longrightarrow>
   length rs = length results + length targets
   \<or> (stop \<and> rs \<noteq> [] \<and> status (last rs) = AUTH_ERROR)"
proof (induction targets arbitrary: i results st)
  case Nil
  then show ?case by simp
next
  case (Cons t rest)
  obtain ident gid where t: "t = (ident, gid)" by (cases t)
  let ?info = "map_of gi gid"
  let ?gname = "case ?info of None \<Rightarrow> group_label @ str_int gid | Some x \<Rightarrow> name x"
  show ?case
  proof (cases "suggest_closed ?info")
    case True
    let ?r0 = "\<lparr>group_id = gid, group_name = ?gname, status = SUGGEST_DISABLED,
                post_id = None, error_message = Some suggest_closed_text, error_code = None\<rparr>"
    let ?st1 = "report_progress prog (i + 1) n ?r0
                  (vk_log (MsgSuggestClosed (i + 1) n ?gname) ''warning'' st)"
    from Cons.prems t True
    have "dispatch w gi message attachments prog stop n (i + 1) rest (results @ [?r0]) ?st1
            = (Inr rs, st')"
      by (simp add: Let_def)
    from Cons.IH [OF this] show ?thesis by auto
  next
    case False
    obtain x st1 where p: "post_to_suggestion w gid ?gname message attachments
                             (vk_log (MsgSending (i + 1) n ?gname) ''info'' st) = (x, st1)"
      by (cases "post_to_suggestion w gid ?gname message attachments
                   (vk_log (MsgSending (i + 1) n ?gname) ''info'' st)")
    from Cons.prems t False p obtain r where x: "x = Inr r"
      by (cases x) (simp_all add: Let_def)
    let ?st2 = "if status r = SUCCESS
                then vk_log (MsgSent (i + 1) n ?gname (post_id r)) ''info'' st1
                else vk_log (MsgNotSent (i + 1) n ?gname (failure_text r)) ''warning'' st1"
    show ?thesis
    proof (cases "stop \<and> status r = AUTH_ERROR")
      case True
      with Cons.prems t False p x have "rs = results @ [r]"
        by (simp add: Let_def)
      with True show ?thesis by simp
    next
      case nobreak: False
      with Cons.prems t False p x
      have "dispatch w gi message attachments prog stop n (i + 1) rest (results @ [r])
              (report_progress prog (i + 1) n r ?st2) = (Inr rs, st')"
        by (auto simp: Let_def split: if_splits)
      from Cons.IH [OF this] show ?thesis by auto
    qed
  qed
qed

lemma dispatch_append:
  "dispatch w gi message attachments prog stop n i pre results st = (Inr rs, st1) \<Longrightarrow>
   stop \<longrightarrow> (\<forall>r\<in>set (drop (length results) rs). status r \<noteq> AUTH_ERROR) \<Longrightarrow>
   dispatch w gi message attachments prog stop n i (pre @ rest) results st
     = dispatch w gi message attachments prog stop n (i + length pre) rest rs st1"
proof (induction pre arbitrary: i results st)
  case Nil
  then show ?case by simp
next
  case (Cons t pre)
  obtain ident gid where t: "t = (ident, gid)" by (cases t)
  let ?info = "map_of gi gid"
  let ?gname = "case ?info of None \<Rightarrow> group_label @ str_int gid | Some x \<Rightarrow> name x"
  from dispatch_results [OF Cons.prems(1)] obtain new where new: "rs = results @ new"
    by blast
  show ?case
  proof (cases "suggest_closed ?info")
    case True
    let ?r0 = "\<lparr>group_id = gid, group_name = ?gname, status = SUGGEST_DISABLED,
                post_id = None, error_message = Some suggest_closed_text, error_code = None\<rparr>"
    let ?st1 = "report_progress prog (i + 1) n ?r0
                  (vk_log (MsgSuggestClosed (i + 1) n ?gname) ''warning'' st)"
    from Cons.prems(1) t True
    have d: "dispatch w gi message attachments prog stop n (i + 1) pre (results @ [?r0]) ?st1
            = (Inr rs, st1)"
      by (simp add: Let_def)
    have "stop \<longrightarrow> (\<forall>r\<in>set (drop (length (results @ [?r0])) rs). status r \<noteq> AUTH_ERROR)"
      using Cons.prems(2) set_drop_subset_set_drop [of "length results" "Suc (length results)" rs]
      by auto
    from Cons.IH [OF d this] t True show ?thesis
      by (simp add: Let_def)
  next
    case False
    obtain x st2 where p: "post_to_suggestion w gid ?gname message attachments
                             (vk_log (MsgSending (i + 1) n ?gname) ''info'' st) = (x, st2)"
      by (cases "post_to_suggestion w gid ?gname message attachments
                   (vk_log (MsgSending (i + 1) n ?gname) ''info'' st)")
    from Cons.prems(1) t False p obtain r where x: "x = Inr r"
      by (cases x) (simp_all add: Let_def)
    let ?st3 = "if status r = SUCCESS
                then vk_log (MsgSent (i + 1) n ?gname (post_id r)) ''info'' st2
                else vk_log (MsgNotSent (i + 1) n ?gname (failure_text r)) ''warning'' st2"
    have nobreak: "\<not> (stop \<and> status r = AUTH_ERROR)"
    proof
      assume b: "stop \<and> status r = AUTH_ERROR"
      with Cons.prems(1) t False p x have "rs = results @ [r]"
        by (simp add: Let_def)
      with Cons.prems(2) b show False by simp
    qed
    with Cons.prems(1) t False p x
    have d: "dispatch w gi message attachments prog stop n (i + 1) pre (results @ [r])
              (report_progress prog (i + 1) n r ?st3) = (Inr rs, st1)"
      by (auto simp: Let_def split: if_splits)
    have "stop \<longrightarrow> (\<forall>r'\<in>set (drop (length (results @ [r])) rs). status r' \<noteq> AUTH_ERROR)"
      using Cons.prems(2) set_drop_subset_set_drop [of "length results" "Suc (length results)" rs]
      by auto
    from Cons.IH [OF d this] t False p x nobreak show ?thesis
      by (auto simp: Let_def split: if_splits)
  qed
qed



lemma lookup_is_no_wall_post: "\<not> is_wall_post g (api_post st ''groups.getById'' ps)"
  by (simp add: api_post_def BASE_URL_def)

lemma resolve_batches_run:
  "resolve_batches py w bs result st = (x, st') \<Longrightarrow>
   \<exists>reqs. run st st' reqs \<and> (\<forall>r\<in>set reqs. \<forall>g. \<not> is_wall_post g r)"
proof (induction bs arbitrary: result st)
  case Nil
  then have "run st st' []" by (simp add: run_refl)
  then show ?case by (intro exI [of _ "[]"]) simp
next
  case (Cons batch rest)
  let ?ps = "[(''group_ids'', JStr (str_join '','' batch))]"
  obtain y st1 where c: "api_request w ''groups.getById'' ?ps st = (y, st1)"
    by (cases "api_request w ''groups.getById'' ?ps st")
  from api_request_run [OF c] obtain k where
      k: "run st st1 (replicate k (api_post st ''groups.getById'' ?ps))"
    by blast
  from Cons.prems c
  have "st' = st1 \<or> (\<exists>r1 s1. resolve_batches py w rest r1 s1 = (x, st') \<and> run st1 s1 [])"
    by (simp split: sum.splits exn.splits json.splits)
       (blast intro: run_refl run_vk_log)+
  then show ?case
  proof
    assume "st' = st1"
    with k show ?thesis
      by (intro exI [of _ "replicate k (api_post st ''groups.getById'' ?ps)"])
         (auto simp: lookup_is_no_wall_post)
  next
    assume "\<exists>r1 s1. resolve_batches py w rest r1 s1 = (x, st') \<and> run st1 s1 []"
    then obtain r1 s1 where rest: "resolve_batches py w rest r1 s1 = (x, st')"
        and s1: "run st1 s1 []"
      by blast
    from Cons.IH [OF rest] obtain reqs where reqs: "run s1 st' reqs"
        "\<forall>r\<in>set reqs. \<forall>g. \<not> is_wall_post g r"
      by blast
    from run_trans [OF run_trans [OF k s1] reqs(1)]
    have "run st st' (replicate k (api_post st ''groups.getById'' ?ps) @ reqs)" by simp
    with reqs(2) show ?thesis
      by (intro exI [of _ "replicate k (api_post st ''groups.getById'' ?ps) @ reqs"])
         (auto simp: lookup_is_no_wall_post)
  qed
qed

lemma resolve_group_ids_run:
  "resolve_group_ids py w ids st = (x, st') \<Longrightarrow>
   \<exists>reqs. run st st' reqs \<and> (\<forall>r\<in>set reqs. \<forall>g. \<not> is_wall_post g r)"
  by (auto simp: resolve_group_ids_def split: prod.splits dest: resolve_batches_run)

lemma info_batches_run:
  "info_batches w bs result st = (x, st') \<Longrightarrow>
   \<exists>reqs. run st st' reqs \<and> (\<forall>r\<in>set reqs. \<forall>g. \<not> is_wall_post g r)"
proof (induction bs arbitrary: result st)
  case Nil
  then have "run st st' []" by (simp add: run_refl)
  then show ?case by (intro exI [of _ "[]"]) simp
next
  case (Cons batch rest)
  let ?ps = "[(''group_ids'', JStr (str_join '','' (map str_int batch))),
              (''fields'', JStr ''can_post,can_suggest,is_closed,is_member,wall'')]"
  obtain y st1 where c: "api_request w ''groups.getById'' ?ps st = (y, st1)"
    by (cases "api_request w ''groups.getById'' ?ps st")
  from api_request_run [OF c] obtain k where
      k: "run st st1 (replicate k (api_post st ''groups.getById'' ?ps))"
    by blast
  from Cons.prems c
  have "st' = st1 \<or> (\<exists>r1 s1. info_batches w rest r1 s1 = (x, st') \<and> run st1 s1 [])"
    by (simp split: sum.splits exn.splits json.splits)
       (blast intro: run_refl run_vk_log)+
  then show ?case
  proof
    assume "st' = st1"
    with k show ?thesis
      by (intro exI [of _ "replicate k (api_post st ''groups.getById'' ?ps)"])
         (auto simp: lookup_is_no_wall_post)
  next
    assume "\<exists>r1 s1. info_batches w rest r1 s1 = (x, st') \<and> run st1 s1 []"
    then obtain r1 s1 where rest: "info_batches w rest r1 s1 = (x, st')"
        and s1: "run st1 s1 []"
      by blast
    from Cons.IH [OF rest] obtain reqs where reqs: "run s1 st' reqs"
        "\<forall>r\<in>set reqs. \<forall>g. \<not> is_wall_post g r"
      by blast
    from run_trans [OF run_trans [OF k s1] reqs(1)]
    have "run st st' (replicate k (api_post st ''groups.getById'' ?ps) @ reqs)" by simp
    with reqs(2) show ?thesis
      by (intro exI [of _ "replicate k (api_post st ''groups.getById'' ?ps) @ reqs"])
         (auto simp: lookup_is_no_wall_post)
  qed
qed

lemma get_groups_info_run:
  "get_groups_info w ids st = (x, st') \<Longrightarrow>
   \<exists>reqs. run st st' reqs \<and> (\<forall>r\<in>set reqs. \<forall>g. \<not> is_wall_post g r)"
  by (simp add: get_groups_info_def info_batches_run)

section \<open>The batch\<close>


lemma process_groups_cases:
  assumes "process_groups py w ids message attachments on_progress stop st = (Inr results, st')"
  shows "\<exists>resolved st1.
      resolve_group_ids py w ids (vk_log (MsgResolving (length ids)) ''info'' st) = (Inr resolved, st1)
    \<and> ((resolved = [] \<and> results = []) \<or>
       (\<exists>groups_info st2.
           get_groups_info w (dict_values resolved)
             (vk_log MsgFetchingInfo ''info'' (vk_log (MsgFound (length resolved)) ''info'' st1))
             = (Inr groups_info, st2)
         \<and> dispatch w groups_info message attachments on_progress stop
               (length (dict_values resolved)) 0 resolved [] st2 = (Inr results, st')))"
proof -
  obtain x st1 where r: "resolve_group_ids py w ids (vk_log (MsgResolving (length ids)) ''info'' st) = (x, st1)"
    by (cases "resolve_group_ids py w ids (vk_log (MsgResolving (length ids)) ''info'' st)")
  from assms r obtain resolved where x: "x = Inr resolved"
    by (cases x) (simp_all add: process_groups_def)
  show ?thesis
  proof (cases "resolved = []")
    case True
    with assms r x show ?thesis by (simp add: process_groups_def)
  next
    case False
    let ?st = "vk_log MsgFetchingInfo ''info'' (vk_log (MsgFound (length resolved)) ''info'' st1)"
    obtain y st2 where g: "get_groups_info w (dict_values resolved) ?st = (y, st2)"
      by (cases "get_groups_info w (dict_values resolved) ?st")
    from assms r x False g obtain groups_info where y: "y = Inr groups_info"
      by (cases y) (simp_all add: process_groups_def)
    with assms r x False g show ?thesis by (simp add: process_groups_def)
  qed
qed


text \<open>
  C2. A target of \<^verbatim>\<open>process_groups\<close> whose fetched record has \<open>can_post\<close> and
  \<open>can_suggest\<close> both false is never submitted and gets a result with the status
  \<open>suggest_disabled\<close>. The result list follows the targets position by position: it
  has one result for every target, unless the batch was stopped by an auth error, in
  which case it ends with that result. So every closed target either has its result,
  at its own position, with the status \<open>suggest_disabled\<close>, or lies after the result
  that stopped the batch. Among all the requests of the run, from the first log line to
  the return, none is a \<^verbatim>\<open>wall.post\<close> for a closed community; as every call of
  \<^verbatim>\<open>post_to_suggestion\<close> posts at least one such request, the submission is not
  called for it.
\<close>

theorem process_groups_skips_closed:
  assumes "process_groups py w ids message attachments on_progress stop st = (Inr results, st')"
  shows "\<exists>resolved st1.
      resolve_group_ids py w ids (vk_log (MsgResolving (length ids)) ''info'' st)
        = (Inr resolved, st1)
    \<and> ((resolved = [] \<and> results = []) \<or>
       (\<exists>groups_info st2 reqs.
           get_groups_info w (dict_values resolved)
             (vk_log MsgFetchingInfo ''info'' (vk_log (MsgFound (length resolved)) ''info'' st1))
             = (Inr groups_info, st2)
         \<and> length results \<le> length resolved
         \<and> (length results = length resolved
              \<or> (stop \<and> results \<noteq> [] \<and> status (last results) = AUTH_ERROR))
         \<and> (\<forall>j<length results. group_id (results ! j) = snd (resolved ! j))
         \<and> (\<forall>j<length resolved. \<forall>info.
               map_of groups_info (snd (resolved ! j)) = Some info
               \<and> \<not> can_post info \<and> \<not> can_suggest info
               \<longrightarrow> (j < length results \<and> status (results ! j) = SUGGEST_DISABLED)
                   \<or> (stop \<and> results \<noteq> [] \<and> status (last results) = AUTH_ERROR
                       \<and> length results \<le> j))
         \<and> run st st' reqs
         \<and> (\<forall>gid info.
               map_of groups_info gid = Some info \<and> \<not> can_post info \<and> \<not> can_suggest info
               \<longrightarrow> (\<forall>r\<in>set reqs. \<not> is_wall_post gid r))))"
proof -
  from process_groups_cases [OF assms] obtain resolved st1 where
    r: "resolve_group_ids py w ids (vk_log (MsgResolving (length ids)) ''info'' st)
          = (Inr resolved, st1)"
    and c: "(resolved = [] \<and> results = []) \<or>
       (\<exists>groups_info st2.
           get_groups_info w (dict_values resolved)
             (vk_log MsgFetchingInfo ''info'' (vk_log (MsgFound (length resolved)) ''info'' st1))
             = (Inr groups_info, st2)
         \<and> dispatch w groups_info message attachments on_progress stop
               (length (dict_values resolved)) 0 resolved [] st2 = (Inr results, st'))"
    by blast
  from c show ?thesis
  proof
    assume "resolved = [] \<and> results = []"
    with r show ?thesis by blast
  next
    assume "\<exists>groups_info st2.
           get_groups_info w (dict_values resolved)
             (vk_log MsgFetchingInfo ''info'' (vk_log (MsgFound (length resolved)) ''info'' st1))
             = (Inr groups_info, st2)
         \<and> dispatch w groups_info message attachments on_progress stop
               (length (dict_values resolved)) 0 resolved [] st2 = (Inr results, st')"
    then obtain groups_info st2 where
      g: "get_groups_info w (dict_values resolved)
             (vk_log MsgFetchingInfo ''info'' (vk_log (MsgFound (length resolved)) ''info'' st1))
             = (Inr groups_info, st2)"
      and d: "dispatch w groups_info message attachments on_progress stop
               (length (dict_values resolved)) 0 resolved [] st2 = (Inr results, st')"
      by blast
    from dispatch_results [OF d]
    have len: "length results \<le> length resolved"
      and all: "list_all2 (\<lambda>t r. group_id r = snd t
                        \<and> (suggest_closed (map_of groups_info (snd t)) \<longrightarrow> status r = SUGGEST_DISABLED)
                        \<and> status r \<noteq> NOT_MEMBER \<and> status r \<noteq> NETWORK_ERROR)
          (take (length results) resolved) results"
      by auto
    from dispatch_complete [OF d]
    have full: "length results = length resolved
              \<or> (stop \<and> results \<noteq> [] \<and> status (last results) = AUTH_ERROR)"
      by simp
    from resolve_group_ids_run [OF r] obtain reqs1 where reqs1: "run st st1 reqs1"
        "\<forall>r\<in>set reqs1. \<forall>g. \<not> is_wall_post g r"
      by (blast intro: run_start_vk_log)
    from get_groups_info_run [OF g] obtain reqs2 where reqs2: "run st1 st2 reqs2"
        "\<forall>r\<in>set reqs2. \<forall>g. \<not> is_wall_post g r"
      by (blast intro: run_start_vk_log)
    from dispatch_run [OF d] obtain reqs3 where reqs3: "run st2 st' reqs3"
      "\<forall>r\<in>set reqs3. \<exists>t\<in>set resolved. is_wall_post (snd t) r
                                        \<and> \<not> suggest_closed (map_of groups_info (snd t))"
      by blast
    let ?reqs = "reqs1 @ reqs2 @ reqs3"
    have whole: "run st st' ?reqs"
      using run_trans [OF reqs1(1) run_trans [OF reqs2(1) reqs3(1)]] .
    have ids: "\<forall>j<length results. group_id (results ! j) = snd (resolved ! j)"
      using all len by (auto simp: list_all2_conv_all_nth)
    have closed: "\<forall>j<length results. \<forall>info.
               map_of groups_info (snd (resolved ! j)) = Some info
               \<and> \<not> can_post info \<and> \<not> can_suggest info
               \<longrightarrow> status (results ! j) = SUGGEST_DISABLED"
      using all len by (auto simp: list_all2_conv_all_nth suggest_closed_def)
    have reached: "\<forall>j<length resolved. \<forall>info.
               map_of groups_info (snd (resolved ! j)) = Some info
               \<and> \<not> can_post info \<and> \<not> can_suggest info
               \<longrightarrow> (j < length results \<and> status (results ! j) = SUGGEST_DISABLED)
                   \<or> (stop \<and> results \<noteq> [] \<and> status (last results) = AUTH_ERROR
                       \<and> length results \<le> j)"
    proof (intro allI impI)
      fix j info
      assume j: "j < length resolved"
        and i: "map_of groups_info (snd (resolved ! j)) = Some info
               \<and> \<not> can_post info \<and> \<not> can_suggest info"
      show "(j < length results \<and> status (results ! j) = SUGGEST_DISABLED)
                   \<or> (stop \<and> results \<noteq> [] \<and> status (last results) = AUTH_ERROR
                       \<and> length results \<le> j)"
      proof (cases "j < length results")
        case True
        with closed i show ?thesis by blast
      next
        case False
        with j full show ?thesis by auto
      qed
    qed
    have silent: "\<forall>gid info.
               map_of groups_info gid = Some info \<and> \<not> can_post info \<and> \<not> can_suggest info
               \<longrightarrow> (\<forall>r\<in>set ?reqs. \<not> is_wall_post gid r)"
    proof (intro allI impI ballI notI)
      fix gid info r
      assume i: "map_of groups_info gid = Some info \<and> \<not> can_post info \<and> \<not> can_suggest info"
        and "r \<in> set ?reqs" and w: "is_wall_post gid r"
      with reqs1(2) reqs2(2) have "r \<in> set reqs3" by auto
      with reqs3(2) obtain t :: "string \<times> int" where "is_wall_post (snd t) r"
          "\<not> suggest_closed (map_of groups_info (snd t))"
        by blast
      with w is_wall_post_unique [of gid r "snd t"] i show False
        by (auto simp: suggest_closed_def)
    qed
    from r g len full ids reached whole silent show ?thesis by blast
  qed
qed

theorem process_groups_skips_closed_witness:
  "fst (process_groups ascii_python world_mixed [''1'', ''2''] ''hello'' None False True
          demo_client)
     = Inr [\<lparr>group_id = 1, group_name = ''Closed'', status = SUGGEST_DISABLED, post_id = None,
              error_message = Some suggest_closed_text, error_code = None\<rparr>,
            \<lparr>group_id = 2, group_name = ''Open'', status = SUCCESS, post_id = Some 42,
              error_message = None, error_code = None\<rparr>]
   \<and> (\<exists>groups_info reqs.
         fst (get_groups_info world_mixed [1, 2] demo_client) = Inr groups_info
       \<and> map_of groups_info 1
           = Some \<lparr>GroupInfo.group_id = 1, name = ''Closed'', screen_name = ''1'',
                   can_post = False, can_suggest = False, is_closed = 0, is_member = False\<rparr>
       \<and> run demo_client (snd (process_groups ascii_python world_mixed [''1'', ''2''] ''hello''
                                  None False True demo_client)) reqs
       \<and> length reqs = 2
       \<and> (\<forall>r\<in>set reqs. \<not> is_wall_post 1 r))"
proof -
  let ?results = "[\<lparr>group_id = 1, group_name = ''Closed'', status = SUGGEST_DISABLED, post_id = None,
              error_message = Some suggest_closed_text, error_code = None\<rparr>,
            \<lparr>group_id = 2, group_name = ''Open'', status = SUCCESS, post_id = Some 42,
              error_message = None, error_code = None\<rparr>]"
  let ?info = "\<lparr>GroupInfo.group_id = 1, name = ''Closed'', screen_name = ''1'',
                   can_post = False, can_suggest = False, is_closed = 0, is_member = False\<rparr>"
  let ?gi = "[(1, ?info),
              (2, \<lparr>GroupInfo.group_id = 2, name = ''Open'', screen_name = ''2'',
                   can_post = False, can_suggest = True, is_closed = 0, is_member = False\<rparr>)]"
  let ?p = "process_groups ascii_python world_mixed [''1'', ''2''] ''hello'' None False True
              demo_client"
  have f: "fst ?p = Inr ?results"
    by code_simp
  then have p: "?p = (Inr ?results, snd ?p)"
    by (simp add: prod_eq_iff)
  have rs: "resolve_group_ids ascii_python world_mixed [''1'', ''2'']
              (vk_log (MsgResolving (length [''1'', ''2''])) ''info'' demo_client)
            = (Inr [(''1'', 1), (''2'', 2)],
               vk_log (MsgResolving (length [''1'', ''2''])) ''info'' demo_client)"
    by code_simp
  have gf: "fst (get_groups_info world_mixed (dict_values [(''1'', 1), (''2'', 2)])
               (vk_log MsgFetchingInfo ''info'' (vk_log (MsgFound (length [(''1'', 1::int), (''2'', 2)])) ''info''
                  (vk_log (MsgResolving (length [''1'', ''2''])) ''info'' demo_client))))
            = Inr ?gi"
    by code_simp
  have g0: "fst (get_groups_info world_mixed [1, 2] demo_client) = Inr ?gi"
    by code_simp
  have count: "request_count (snd ?p) = 2"
    by code_simp
  from process_groups_skips_closed [OF p] rs gf
  obtain reqs where
    r: "run demo_client (snd ?p) reqs"
    and s: "\<forall>gid info. map_of ?gi gid = Some info \<and> \<not> can_post info \<and> \<not> can_suggest info
               \<longrightarrow> (\<forall>r\<in>set reqs. \<not> is_wall_post gid r)"
    by auto
  from r count have c: "length reqs = 2"
    by (simp add: run_def demo_client_def)
  have "map_of ?gi 1 = Some ?info \<and> \<not> can_post ?info \<and> \<not> can_suggest ?info"
    by simp
  with s have "\<forall>r\<in>set reqs. \<not> is_wall_post 1 r" by blast
  with f g0 r c show ?thesis by auto
qed

text \<open>
  C3. With \<^verbatim>\<open>stop_on_auth_error\<close> set, the batch ends at the first result that classifies
  as \<open>auth_error\<close>. Let the targets be \<open>pre\<close>, then \<open>(ident, gid)\<close>, then \<open>post\<close>; let
  the loop over \<open>pre\<close> give the results \<open>rs\<close>, none of them an auth error, and let the
  submission for \<open>gid\<close>, which is open, give a result \<open>r\<close> with the status \<open>auth_error\<close>.
  Then \<^verbatim>\<open>process_groups\<close> returns \<open>rs\<close> followed by \<open>r\<close>: the result is appended, and the
  list has as many results as targets up to this one, the position of the auth error
  counted from 1. Nothing is done for the targets of \<open>post\<close>: the client is left as the
  submission left it but for the two log lines of the failure and of the stop, so no
  request, no log line and no progress report follows.
\<close>

theorem process_groups_stops_on_auth_error:
  assumes resolve: "resolve_group_ids py w ids (vk_log (MsgResolving (length ids)) ''info'' st)
                      = (Inr resolved, st1)"
    and targets: "resolved = pre @ (ident, gid) # post"
    and info: "get_groups_info w (dict_values resolved)
                 (vk_log MsgFetchingInfo ''info''
                    (vk_log (MsgFound (length resolved)) ''info'' st1))
                 = (Inr groups_info, st2)"
    and before: "dispatch w groups_info message attachments on_progress True
                   (length resolved) 0 pre [] st2 = (Inr rs, st3)"
    and clean: "\<forall>r\<in>set rs. status r \<noteq> AUTH_ERROR"
    and gname: "gname = (case map_of groups_info gid of
                           None \<Rightarrow> group_label @ str_int gid | Some x \<Rightarrow> name x)"
    and opened: "\<not> suggest_closed (map_of groups_info gid)"
    and call: "post_to_suggestion w gid gname message attachments
                 (vk_log (MsgSending (length pre + 1) (length resolved) gname) ''info'' st3)
                 = (Inr r, st4)"
    and auth: "status r = AUTH_ERROR"
  shows "process_groups py w ids message attachments on_progress True st
           = (Inr (rs @ [r]),
              vk_log MsgAuthError ''error''
                (vk_log (MsgNotSent (length pre + 1) (length resolved) gname (failure_text r))
                   ''warning'' st4))
         \<and> length (rs @ [r]) = length pre + 1
         \<and> (\<forall>j<length pre. status ((rs @ [r]) ! j) \<noteq> AUTH_ERROR)
         \<and> status ((rs @ [r]) ! length pre) = AUTH_ERROR"
proof -
  let ?n = "length resolved"
  from dispatch_complete [OF before] clean have len: "length rs = length pre"
    by (cases "rs = []") auto
  from clean have "True \<longrightarrow> (\<forall>r\<in>set (drop (length ([]::PostResult list)) rs).
                               status r \<noteq> AUTH_ERROR)"
    by simp
  from dispatch_append [OF before this, of "(ident, gid) # post"]
  have "dispatch w groups_info message attachments on_progress True ?n 0 resolved [] st2
          = dispatch w groups_info message attachments on_progress True ?n (length pre)
              ((ident, gid) # post) rs st3"
    using targets by simp
  also from gname opened call auth
  have "\<dots> = (Inr (rs @ [r]),
              vk_log MsgAuthError ''error''
                (vk_log (MsgNotSent (length pre + 1) ?n gname (failure_text r))
                   ''warning'' st4))"
    by (simp add: Let_def)
  finally have d: "dispatch w groups_info message attachments on_progress True ?n 0 resolved []
                     st2
          = (Inr (rs @ [r]),
              vk_log MsgAuthError ''error''
                (vk_log (MsgNotSent (length pre + 1) ?n gname (failure_text r))
                   ''warning'' st4))" .
  from targets have "resolved \<noteq> []" by simp
  with resolve info d
  have p: "process_groups py w ids message attachments on_progress True st
           = (Inr (rs @ [r]),
              vk_log MsgAuthError ''error''
                (vk_log (MsgNotSent (length pre + 1) ?n gname (failure_text r))
                   ''warning'' st4))"
    by (simp add: process_groups_def dict_values_def)
  from clean len have "\<forall>j<length pre. status ((rs @ [r]) ! j) \<noteq> AUTH_ERROR"
    by (simp add: nth_append)
  moreover from len auth have "status ((rs @ [r]) ! length pre) = AUTH_ERROR"
    by (simp add: nth_append)
  ultimately show ?thesis using p len by simp
qed

theorem process_groups_stops_on_auth_error_witness:
  "fst (process_groups ascii_python world_revoked [''1'', ''2'', ''3''] ''hello'' None False True
          demo_client)
     = Inr [\<lparr>group_id = 1, group_name = group_label @ ''1'', status = SUCCESS,
              post_id = Some 42, error_message = None, error_code = None\<rparr>,
            \<lparr>group_id = 2, group_name = group_label @ ''2'', status = AUTH_ERROR,
              post_id = None, error_message = Some ''User authorization failed'',
              error_code = Some 5\<rparr>]
   \<and> (\<exists>evs. events (snd (process_groups ascii_python world_revoked [''1'', ''2'', ''3'']
                            ''hello'' None False True demo_client))
              = evs @ [Log MsgAuthError ''error''])
   \<and> request_count (snd (process_groups ascii_python world_revoked [''1'', ''2'', ''3'']
                            ''hello'' None False True demo_client)) = 3"
proof -
  let ?ids = "[''1'', ''2'', ''3'']"
  let ?r1 = "\<lparr>group_id = 1, group_name = group_label @ ''1'', status = SUCCESS,
              post_id = Some 42, error_message = None, error_code = None\<rparr>"
  let ?r2 = "\<lparr>group_id = 2, group_name = group_label @ ''2'', status = AUTH_ERROR,
              post_id = None, error_message = Some ''User authorization failed'',
              error_code = Some 5\<rparr>"
  let ?resolved = "[(''1'', 1::int), (''2'', 2), (''3'', 3)]"
  let ?st1 = "vk_log (MsgResolving (length ?ids)) ''info'' demo_client"
  let ?g = "get_groups_info world_revoked (dict_values ?resolved)
              (vk_log MsgFetchingInfo ''info'' (vk_log (MsgFound (length ?resolved)) ''info'' ?st1))"
  let ?gi = "[(1::int, \<lparr>GroupInfo.group_id = 1, name = group_label @ ''1'', screen_name = ''1'',
                   can_post = False, can_suggest = True, is_closed = 0, is_member = False\<rparr>),
              (2, \<lparr>GroupInfo.group_id = 2, name = group_label @ ''2'', screen_name = ''2'',
                   can_post = False, can_suggest = True, is_closed = 0, is_member = False\<rparr>),
              (3, \<lparr>GroupInfo.group_id = 3, name = group_label @ ''3'', screen_name = ''3'',
                   can_post = False, can_suggest = True, is_closed = 0, is_member = False\<rparr>)]"
  let ?d = "dispatch world_revoked ?gi ''hello'' None False True (length ?resolved) 0
              [(''1'', 1)] [] (snd ?g)"
  let ?gname = "group_label @ ''2''"
  let ?c = "post_to_suggestion world_revoked 2 ?gname ''hello'' None
              (vk_log (MsgSending (length [(''1'', 1::int)] + 1) (length ?resolved) ?gname) ''info''
                 (snd ?d))"
  let ?p = "process_groups ascii_python world_revoked ?ids ''hello'' None False True demo_client"
  have resolve: "resolve_group_ids ascii_python world_revoked ?ids ?st1 = (Inr ?resolved, ?st1)"
    by code_simp
  have targets: "?resolved = [(''1'', 1)] @ (''2'', 2) # [(''3'', 3)]"
    by simp
  have "fst ?g = Inr ?gi"
    by code_simp
  then have info: "?g = (Inr ?gi, snd ?g)"
    by (simp add: prod_eq_iff)
  have "fst ?d = Inr [?r1]"
    by code_simp
  then have before: "?d = (Inr [?r1], snd ?d)"
    by (simp add: prod_eq_iff)
  have clean: "\<forall>r\<in>set [?r1]. status r \<noteq> AUTH_ERROR"
    by simp
  have gname: "?gname = (case map_of ?gi 2 of
                           None \<Rightarrow> group_label @ str_int 2 | Some x \<Rightarrow> name x)"
    by simp
  have opened: "\<not> suggest_closed (map_of ?gi 2)"
    by (simp add: suggest_closed_def)
  have "fst ?c = Inr ?r2"
    by code_simp
  then have call: "?c = (Inr ?r2, snd ?c)"
    by (simp add: prod_eq_iff)
  have auth: "status ?r2 = AUTH_ERROR"
    by simp
  have count: "request_count (snd ?c) = 3"
    by code_simp
  note t = process_groups_stops_on_auth_error [OF resolve targets info before clean gname
      opened call auth]
  from t have "fst ?p = Inr [?r1, ?r2]"
    by simp
  moreover from t have "\<exists>evs. events (snd ?p) = evs @ [Log MsgAuthError ''error'']"
    by (simp add: vk_log_def)
  moreover from t count have "request_count (snd ?p) = 3"
    by (simp add: vk_log_def)
  ultimately show ?thesis by blast
qed

lemma process_groups_statuses:
  assumes "process_groups py w ids message attachments on_progress stop st = (Inr results, st')"
  shows "\<forall>r\<in>set results. status r \<noteq> NOT_MEMBER \<and> status r \<noteq> NETWORK_ERROR"
proof -
  from process_groups_cases [OF assms] consider "results = []"
    | resolved groups_info st2 where
        "dispatch w groups_info message attachments on_progress stop
           (length (dict_values resolved)) 0 resolved [] st2 = (Inr results, st')"
    by blast
  then show ?thesis
  proof cases
    case 1
    then show ?thesis by simp
  next
    case 2
    from dispatch_results [OF 2]
    have "list_all2 (\<lambda>t r. group_id r = snd t
                        \<and> (suggest_closed (map_of groups_info (snd t)) \<longrightarrow> status r = SUGGEST_DISABLED)
                        \<and> status r \<noteq> NOT_MEMBER \<and> status r \<noteq> NETWORK_ERROR)
          (take (length results) resolved) results"
      by auto
    then show ?thesis
      by (auto simp: list_all2_conv_all_nth in_set_conv_nth)
  qed
qed

text \<open>
  C10. No operation produces a \<open>PostResult\<close> with the status \<open>not_member\<close> or
  \<open>network_error\<close>: the classification table holds neither status and the classifier
  never returns one, and no result of \<^verbatim>\<open>post_to_suggestion\<close> or of \<^verbatim>\<open>process_groups\<close>
  carries one. A transport failure on the last attempt of \<^verbatim>\<open>_api_request\<close> (and so one
  that lasts through all three attempts) is raised as a \<open>VKApiError\<close> with code \<open>-1\<close>, and
  \<open>-1\<close>, like every code that is not a key of the table, classifies as \<open>unknown_error\<close>.
\<close>

theorem no_not_member_or_network_error:
  "NOT_MEMBER \<notin> snd ` set mapping \<and> NETWORK_ERROR \<notin> snd ` set mapping
   \<and> classify_error c \<noteq> NOT_MEMBER \<and> classify_error c \<noteq> NETWORK_ERROR
   \<and> classify_error (- 1) = UNKNOWN_ERROR
   \<and> (code \<notin> fst ` set mapping \<longrightarrow> classify_error code = UNKNOWN_ERROR)
   \<and> (post_to_suggestion w gid gname message attachments st = (Inr r, st1)
        \<longrightarrow> status r \<noteq> NOT_MEMBER \<and> status r \<noteq> NETWORK_ERROR)
   \<and> (process_groups py w ids message attachments on_progress stop st = (Inr results, st2)
        \<longrightarrow> (\<forall>r\<in>set results. status r \<noteq> NOT_MEMBER \<and> status r \<noteq> NETWORK_ERROR))
   \<and> (http w (request_count st + 1) (PostData (BASE_URL @ ''/'' @ meth) ps 30) = Raises e
        \<longrightarrow> fst (api_loop w meth ps 3 (2 # rest) st)
            = Inl (VKApiError (- 1) (network_error_text @ e)))
   \<and> ((\<forall>k\<in>{1, 2, 3}. \<exists>e. http w (request_count st + k) (api_post st meth ps) = Raises e)
        \<longrightarrow> (\<exists>e. fst (api_request w meth ps st)
                  = Inl (VKApiError (- 1) (network_error_text @ e))))"
proof -
  have table: "NOT_MEMBER \<notin> snd ` set mapping \<and> NETWORK_ERROR \<notin> snd ` set mapping"
    by (simp add: mapping_def)
  have never: "classify_error c \<noteq> NOT_MEMBER \<and> classify_error c \<noteq> NETWORK_ERROR"
    using classify_error_range [of c] by auto
  have minus: "classify_error (- 1) = UNKNOWN_ERROR"
    by (simp add: classify_error_def mapping_def error_codes)
  have absent: "code \<notin> fst ` set mapping \<longrightarrow> classify_error code = UNKNOWN_ERROR"
    using map_of_key [of mapping code] by (auto simp: classify_error_def split: option.splits)
  have one: "post_to_suggestion w gid gname message attachments st = (Inr r, st1)
        \<longrightarrow> status r \<noteq> NOT_MEMBER \<and> status r \<noteq> NETWORK_ERROR"
    using post_to_suggestion_status by blast
  have batch: "process_groups py w ids message attachments on_progress stop st = (Inr results, st2)
        \<longrightarrow> (\<forall>r\<in>set results. status r \<noteq> NOT_MEMBER \<and> status r \<noteq> NETWORK_ERROR)"
    using process_groups_statuses by blast
  have last: "http w (request_count st + 1) (PostData (BASE_URL @ ''/'' @ meth) ps 30) = Raises e
        \<longrightarrow> fst (api_loop w meth ps 3 (2 # rest) st)
            = Inl (VKApiError (- 1) (network_error_text @ e))"
    using api_loop_transport_last by blast
  have down: "(\<forall>k\<in>{1, 2, 3}. \<exists>e. http w (request_count st + k) (api_post st meth ps) = Raises e)
        \<longrightarrow> (\<exists>e. fst (api_request w meth ps st)
                  = Inl (VKApiError (- 1) (network_error_text @ e)))"
    using api_request_transport_failure by blast
  from table never minus absent one batch last down show ?thesis by blast
qed

theorem no_not_member_or_network_error_witness:
  "(\<exists>e. fst (api_request world_down ''wall.post'' [] demo_client)
          = Inl (VKApiError (- 1) (network_error_text @ e)))
   \<and> fst (post_to_suggestion world_down 1 ''g'' ''hello'' None demo_client)
       = Inr \<lparr>group_id = 1, group_name = ''g'', status = UNKNOWN_ERROR, post_id = None,
              error_message = Some (network_error_text @ ''timed out''),
              error_code = Some (- 1)\<rparr>
   \<and> status \<lparr>group_id = 1, group_name = ''g'', status = UNKNOWN_ERROR, post_id = None,
              error_message = Some (network_error_text @ ''timed out''),
              error_code = Some (- 1)\<rparr> \<noteq> NETWORK_ERROR"
proof -
  let ?r = "\<lparr>group_id = 1, group_name = ''g'', status = UNKNOWN_ERROR, post_id = None,
              error_message = Some (network_error_text @ ''timed out''),
              error_code = Some (- 1)\<rparr>"
  let ?p = "post_to_suggestion world_down 1 ''g'' ''hello'' None demo_client"
  have f: "fst ?p = Inr ?r"
    by code_simp
  then have p: "?p = (Inr ?r, snd ?p)"
    by (simp add: prod_eq_iff)
  have d: "\<forall>k\<in>{1, 2, 3}. \<exists>e. http world_down (request_count demo_client + k)
                                (api_post demo_client ''wall.post'' []) = Raises e"
    by (simp add: world_down_def)
  note t = no_not_member_or_network_error [where w = world_down and st = demo_client
      and gid = 1 and gname = "''g''" and message = "''hello''" and attachments = None
      and r = ?r and ?st1.0 = "snd ?p" and meth = "''wall.post''" and ps = "[]"]
  from t d have a: "\<exists>e. fst (api_request world_down ''wall.post'' [] demo_client)
          = Inl (VKApiError (- 1) (network_error_text @ e))"
    by blast
  from t p have "status ?r \<noteq> NETWORK_ERROR"
    by blast
  with a f show ?thesis by blast
qed

section \<open>The order of a resolution map\<close>


lemma set_first_occurrences [simp]: "set (first_occurrences xs) = set xs"
  by (induction xs rule: first_occurrences.induct) auto

lemma distinct_first_occurrences [simp]: "distinct (first_occurrences xs)"
  by (induction xs rule: first_occurrences.induct) auto

lemma extends_refl: "extends_with B d d"
  by (simp add: extends_with_def)

lemma extends_trans:
  "extends_with B d d' \<Longrightarrow> extends_with B d' d'' \<Longrightarrow> extends_with B d d''"
  unfolding extends_with_def
  by (elim exE conjE, rule_tac x = "hs @ hsa" in exI) auto

lemma extends_mono: "extends_with B d d' \<Longrightarrow> B \<subseteq> C \<Longrightarrow> extends_with C d d'"
  unfolding extends_with_def by blast

lemma extends_dict_set: "k \<in> B \<Longrightarrow> extends_with B d (dict_set d k v)"
  unfolding extends_with_def
  by (cases "k \<in> set (dict_keys d)") (auto simp: dict_keys_dict_set)

lemma extends_distinct:
  "extends_with B d d' \<Longrightarrow> distinct (dict_keys d) \<Longrightarrow> distinct (dict_keys d')"
  unfolding extends_with_def by auto

lemma store_id_extends:
  "store_id grp orig result = Inr r' \<Longrightarrow> orig \<in> B \<Longrightarrow> extends_with B result r'"
  by (auto simp: store_id_def extends_dict_set split: sum.splits)

lemma match_batch_extends:
  "match_batch py grp sname batch result = Inr r' \<Longrightarrow> extends_with (set batch) result r'"
proof (induction batch)
  case Nil
  then show ?case by (simp add: extends_refl)
next
  case (Cons orig rest)
  from Cons.prems consider "store_id grp orig result = Inr r'"
    | "match_batch py grp sname rest result = Inr r'"
    by (auto split: json.splits if_splits sum.splits)
  then show ?case
  proof cases
    case 1
    then show ?thesis by (rule store_id_extends) simp
  next
    case 2
    from Cons.IH [OF 2] show ?thesis by (rule extends_mono) auto
  qed
qed

lemma resolve_groups_extends:
  "resolve_groups py groups batch result = Inr r' \<Longrightarrow> extends_with (set batch) result r'"
proof (induction groups arbitrary: result)
  case Nil
  then show ?case by (simp add: extends_refl)
next
  case (Cons grp groups)
  from Cons.prems obtain sname r1 where
      "match_batch py grp sname batch result = Inr r1" "resolve_groups py groups batch r1 = Inr r'"
    by (auto split: sum.splits)
  with Cons.IH [of r1] match_batch_extends [of py grp sname batch result r1] show ?case
    by (blast intro: extends_trans)
qed

lemma resolve_batches_extends:
  "resolve_batches py w bs result st = (Inr r', st') \<Longrightarrow>
   extends_with (\<Union>(set ` set bs)) result r'"
proof (induction bs arbitrary: result st)
  case Nil
  then show ?case by (simp add: extends_refl)
next
  case (Cons batch rest)
  let ?call = "api_request w ''groups.getById'' [(''group_ids'', JStr (str_join '','' batch))] st"
  obtain x st1 where c: "?call = (x, st1)" by (cases ?call)
  from Cons.prems c
  have "\<exists>r1 st2. extends_with (set batch) result r1
           \<and> resolve_batches py w rest r1 st2 = (Inr r', st')"
    by (simp split: sum.splits exn.splits json.splits)
       (blast intro: extends_refl resolve_groups_extends)+
  then obtain r1 st2 where
      r1: "extends_with (set batch) result r1" and
      rest: "resolve_batches py w rest r1 st2 = (Inr r', st')"
    by blast
  from Cons.IH [OF rest] have "extends_with (\<Union>(set ` set (batch # rest))) r1 r'"
    by (rule extends_mono) auto
  moreover from r1 have "extends_with (\<Union>(set ` set (batch # rest))) result r1"
    by (rule extends_mono) auto
  ultimately show ?case by (rule extends_trans [rotated])
qed

lemma set_batches: "\<Union>(set ` set (batches n xs)) \<subseteq> set xs"
proof (induction n xs rule: batches.induct)
  case (1 n xs)
  show ?case
  proof (cases "n = 0 \<or> xs = []")
    case True
    then show ?thesis by (simp add: batches.simps)
  next
    case False
    with 1 have "\<Union>(set ` set (batches n (drop n xs))) \<subseteq> set (drop n xs)" by simp
    with False show ?thesis
      using set_take_subset [of n xs] set_drop_subset [of n xs]
      by (subst batches.simps) auto
  qed
qed

lemma split_identifiers_keys:
  "split_identifiers py ids result to_resolve = (r', t') \<Longrightarrow>
   dict_keys r' = dict_keys result
       @ first_occurrences (filter (\<lambda>c. c \<notin> set (dict_keys result)) (numeric_identifiers py ids))
   \<and> t' = to_resolve @ handle_identifiers py ids"
proof (induction ids arbitrary: result to_resolve)
  case Nil
  then show ?case
    by (simp add: numeric_identifiers_def handle_identifiers_def cleaned_identifiers_def)
next
  case (Cons ident rest)
  show ?case
  proof (cases "py_strip py ident = []")
    case True
    with Cons show ?thesis
      by (simp add: numeric_identifiers_def handle_identifiers_def cleaned_identifiers_def)
  next
    case False
    let ?c = "clean_group_identifier py (py_strip py ident)"
    show ?thesis
    proof (cases "py_int py ?c")
      case None
      with False Cons.prems
      have "split_identifiers py rest result (to_resolve @ [?c]) = (r', t')"
        by (simp add: Let_def)
      from Cons.IH [OF this] None False show ?thesis
        by (simp add: numeric_identifiers_def handle_identifiers_def cleaned_identifiers_def)
    next
      case (Some gid)
      with False Cons.prems
      have "split_identifiers py rest (dict_set result ?c (abs gid)) to_resolve = (r', t')"
        by (simp add: Let_def)
      from Cons.IH [OF this]
      have ih: "dict_keys r' = dict_keys (dict_set result ?c (abs gid))
          @ first_occurrences (filter (\<lambda>c. c \<notin> set (dict_keys (dict_set result ?c (abs gid))))
                                 (numeric_identifiers py rest))"
        and t: "t' = to_resolve @ handle_identifiers py rest"
        by simp_all
      have num: "numeric_identifiers py (ident # rest) = ?c # numeric_identifiers py rest"
        using False Some by (simp add: numeric_identifiers_def cleaned_identifiers_def)
      have han: "handle_identifiers py (ident # rest) = handle_identifiers py rest"
        using False Some by (simp add: handle_identifiers_def cleaned_identifiers_def)
      show ?thesis
      proof (cases "?c \<in> set (dict_keys result)")
        case True
        with ih t num han show ?thesis by (simp add: dict_keys_dict_set)
      next
        case notin: False
        have "filter (\<lambda>y. y \<noteq> ?c) (filter (\<lambda>c. c \<notin> set (dict_keys result)) (numeric_identifiers py rest))
            = filter (\<lambda>c. c \<notin> set (dict_keys result @ [?c])) (numeric_identifiers py rest)"
          by (auto intro: filter_cong)
        with notin ih t num han show ?thesis by (simp add: dict_keys_dict_set)
      qed
    qed
  qed
qed



text \<open>
  C4 as it is stated fails: the identifiers \<open>durov, 1\<close> come back as \<open>1, durov\<close>. The
  first loop puts the numeric identifier into the map before any handle is looked up.
\<close>

theorem resolve_group_ids_order_counterexample:
  "fst (resolve_group_ids ascii_python world_durov [''durov'', ''1''] demo_client)
     = Inr [(''1'', 1), (''durov'', 5)]
   \<and> cleaned_identifiers ascii_python [''durov'', ''1''] = [''durov'', ''1'']
   \<and> dict_keys [(''1'', 1::int), (''durov'', 5)] = [''1'', ''durov'']"
proof -
  have "fst (resolve_group_ids ascii_python world_durov [''durov'', ''1''] demo_client)
     = Inr [(''1'', 1), (''durov'', 5)]"
    by code_simp
  moreover have "cleaned_identifiers ascii_python [''durov'', ''1''] = [''durov'', ''1'']"
    by code_simp
  moreover have "dict_keys [(''1'', 1::int), (''durov'', 5)] = [''1'', ''durov'']"
    by (simp add: dict_keys_def)
  ultimately show ?thesis by blast
qed

text \<open>
  C4, amended. In the map \<^verbatim>\<open>resolve_group_ids\<close> returns, the entries of the numeric
  identifiers come first, in the order of their first occurrence in the input; they are
  followed by the entries of the handles the lookups resolved. The keys are distinct.
\<close>

theorem resolve_group_ids_order:
  assumes "resolve_group_ids py w ids st = (Inr result, st')"
  shows "\<exists>hs. dict_keys result = first_occurrences (numeric_identifiers py ids) @ hs
            \<and> set hs \<subseteq> set (handle_identifiers py ids)
            \<and> distinct (dict_keys result)"
proof -
  obtain r0 t0 where s: "split_identifiers py ids [] [] = (r0, t0)"
    by (cases "split_identifiers py ids [] []")
  from split_identifiers_keys [OF s]
  have k0: "dict_keys r0 = first_occurrences (numeric_identifiers py ids)"
    and t0: "t0 = handle_identifiers py ids"
    by (simp_all add: dict_keys_def)
  from assms s have "resolve_batches py w (batches 25 t0) r0 st = (Inr result, st')"
    by (simp add: resolve_group_ids_def)
  from resolve_batches_extends [OF this] have "extends_with (set t0) r0 result"
    using set_batches [of 25 t0] by (rule extends_mono)
  then obtain hs where hs: "dict_keys result = dict_keys r0 @ hs" "set hs \<subseteq> set t0"
      "distinct hs" "set hs \<inter> set (dict_keys r0) = {}"
    unfolding extends_with_def by blast
  have "distinct (dict_keys result)"
    using hs k0 by auto
  with hs k0 t0 show ?thesis by auto
qed

theorem resolve_group_ids_order_witness:
  "fst (resolve_group_ids ascii_python world_durov [''durov'', ''1''] demo_client)
     = Inr [(''1'', 1), (''durov'', 5)]
   \<and> numeric_identifiers ascii_python [''durov'', ''1''] = [''1'']
   \<and> handle_identifiers ascii_python [''durov'', ''1''] = [''durov'']
   \<and> (\<exists>hs. dict_keys [(''1'', 1::int), (''durov'', 5)]
               = first_occurrences (numeric_identifiers ascii_python [''durov'', ''1'']) @ hs
            \<and> set hs \<subseteq> set (handle_identifiers ascii_python [''durov'', ''1'']))"
proof -
  let ?p = "resolve_group_ids ascii_python world_durov [''durov'', ''1''] demo_client"
  have f: "fst ?p = Inr [(''1'', 1), (''durov'', 5)]"
    by code_simp
  then have p: "?p = (Inr [(''1'', 1), (''durov'', 5)], snd ?p)"
    by (simp add: prod_eq_iff)
  have n: "numeric_identifiers ascii_python [''durov'', ''1''] = [''1'']"
    by code_simp
  have h: "handle_identifiers ascii_python [''durov'', ''1''] = [''durov'']"
    by code_simp
  from resolve_group_ids_order [OF p]
  have "\<exists>hs. dict_keys [(''1'', 1::int), (''durov'', 5)]
               = first_occurrences (numeric_identifiers ascii_python [''durov'', ''1'']) @ hs
            \<and> set hs \<subseteq> set (handle_identifiers ascii_python [''durov'', ''1''])"
    by blast
  with f n h show ?thesis by blast
qed

text \<open>
  C5. The identifier \<open>0\<close> is purely numeric and is resolved without a request, to the id
  0: \<^verbatim>\<open>abs\<close> turns a negative id into a positive one and leaves zero as it is.
\<close>

theorem resolve_group_ids_zero:
  "resolve_group_ids ascii_python w [''0''] st = (Inr [(''0'', 0)], st)"
  by (simp add: resolve_group_ids_def ascii_python_def ascii_strip_def is_space_def
        clean_group_identifier_def patterns_def backslash_def ascii_sub_def sub_all_def
        sub_start_def lower_char_def ascii_int_def parse_unsigned_def is_digit_def
        digit_val_def batches.simps)

section \<open>Placeholders for a failed batch\<close>
























section \<open>Uploading a photo, phase by phase\<close>










end
